theory Spec2Isabelle
  imports Main "HOL-Library.Code_Target_Nat" "HOL-Library.Multiset"
begin

section \<open>JavaScript strings\<close>

text \<open>
  A JavaScript string is a sequence of UTF-16 code units; a code unit is modelled as a
  natural number, so that every text the services can receive is a value of the model
  (an accented letter in a JSON string, a no-break space before a fence, an emoji as
  two surrogates). \<open>js\<close> turns an ASCII literal into its code units.
\<close>

type_synonym jstring = "nat list"

definition js :: "string \<Rightarrow> jstring" where
  "js s = map of_char s"

abbreviation LF :: nat where "LF \<equiv> 10"
abbreviation DQUOTE :: nat where "DQUOTE \<equiv> 34"
abbreviation SQUOTE :: nat where "SQUOTE \<equiv> 39"
abbreviation BACKSLASH :: nat where "BACKSLASH \<equiv> 92"
abbreviation LBRACE :: nat where "LBRACE \<equiv> 123"
abbreviation RBRACE :: nat where "RBRACE \<equiv> 125"
abbreviation COLON :: nat where "COLON \<equiv> 58"

text \<open>
  The class \<open>\s\<close> of a regular expression and the characters \<open>trim()\<close> removes
  are the same set: ECMAScript's WhiteSpace and LineTerminator (TAB, LF, VT, FF, CR,
  SP, NBSP, U+1680, U+2000..U+200A, U+2028, U+2029, U+202F, U+205F, U+3000, U+FEFF).
\<close>

definition is_space :: "nat \<Rightarrow> bool" where
  "is_space c \<longleftrightarrow>
     c = 9 \<or> c = 10 \<or> c = 11 \<or> c = 12 \<or> c = 13 \<or> c = 32 \<or> c = 160 \<or> c = 5760 \<or>
     (8192 \<le> c \<and> c \<le> 8202) \<or> c = 8232 \<or> c = 8233 \<or> c = 8239 \<or> c = 8287 \<or>
     c = 12288 \<or> c = 65279"

definition trim :: "jstring \<Rightarrow> jstring" where
  "trim s = rev (dropWhile is_space (rev (dropWhile is_space s)))"

definition startsWith :: "jstring \<Rightarrow> jstring \<Rightarrow> bool" where
  "startsWith s p \<longleftrightarrow> take (length p) s = p"

definition endsWith :: "jstring \<Rightarrow> jstring \<Rightarrow> bool" where
  "endsWith s p \<longleftrightarrow> startsWith (rev s) (rev p)"

text \<open>\<open>s.includes(p)\<close>: \<open>p\<close> occurs in \<open>s\<close> as a contiguous run.\<close>

fun includes_str :: "jstring \<Rightarrow> jstring \<Rightarrow> bool" where
  "includes_str [] p = (p = [])"
| "includes_str (c # cs) p = (startsWith (c # cs) p \<or> includes_str cs p)"

text \<open>\<open>indexOf\<close> and \<open>lastIndexOf\<close> of one character; \<open>None\<close> is the source's -1.\<close>

fun indexOf :: "jstring \<Rightarrow> nat \<Rightarrow> nat option" where
  "indexOf [] c = None"
| "indexOf (x # xs) c = (if x = c then Some 0 else map_option Suc (indexOf xs c))"

definition lastIndexOf :: "jstring \<Rightarrow> nat \<Rightarrow> nat option" where
  "lastIndexOf s c = map_option (\<lambda>i. length s - 1 - i) (indexOf (rev s) c)"

text \<open>\<open>s.substring(a, b)\<close> swaps its arguments when \<open>a > b\<close> and clamps them to the length.\<close>

definition substring :: "jstring \<Rightarrow> nat \<Rightarrow> nat \<Rightarrow> jstring" where
  "substring s a b = take (max a b - min a b) (drop (min a b) s)"

text \<open>\<open>s.split('\n')\<close> (the empty string splits into one empty line) and \<open>lines.join(sep)\<close>.\<close>

fun split_lines :: "jstring \<Rightarrow> jstring list" where
  "split_lines [] = [[]]"
| "split_lines (c # cs) =
     (if c = LF then [] # split_lines cs
      else (case split_lines cs of [] \<Rightarrow> [[c]] | l # ls \<Rightarrow> (c # l) # ls))"

fun join :: "jstring \<Rightarrow> jstring list \<Rightarrow> jstring" where
  "join sep [] = []"
| "join sep [l] = l"
| "join sep (l # m # ls) = l @ sep @ join sep (m # ls)"

text \<open>
  \<open>s.replace(/p/g, r)\<close> for a pattern \<open>p\<close> that is a non-empty literal: the matches
  are taken from left to right and do not overlap; the replacement is not scanned again.
\<close>

fun replaceAll :: "jstring \<Rightarrow> jstring \<Rightarrow> jstring \<Rightarrow> jstring" where
  "replaceAll p r [] = []"
| "replaceAll p r (c # cs) =
     (if p \<noteq> [] \<and> startsWith (c # cs) p
      then r @ replaceAll p r (drop (length p) (c # cs))
      else c # replaceAll p r cs)"

text \<open>
  \<open>toLowerCase()\<close> as the source uses it, before \<open>includes('subject:')\<close>, and the
  \<open>i\<close> flag of \<open>/subject:?\s*/i\<close>: the letters A to Z are lowered. No character
  outside A to Z lowers to a letter of \<open>subject:\<close>, and without the \<open>u\<close> flag a
  character outside ASCII never matches an ASCII letter, so both tests are decided as
  the source decides them.
\<close>

definition toLowerCase :: "jstring \<Rightarrow> jstring" where
  "toLowerCase s = map (\<lambda>c. if 65 \<le> c \<and> c \<le> 90 then c + 32 else c) s"

subsection \<open>The regular expressions of the two services\<close>

text \<open>\<open>s.replace(/p\s*/g, '')\<close> for a non-empty literal \<open>p\<close> (\<open>p\<close> is a fence marker).\<close>

function remove_with_spaces :: "jstring \<Rightarrow> jstring \<Rightarrow> jstring" where
  "remove_with_spaces p [] = []"
| "remove_with_spaces p (c # cs) =
     (if p \<noteq> [] \<and> startsWith (c # cs) p
      then remove_with_spaces p (dropWhile is_space (drop (length p) (c # cs)))
      else c # remove_with_spaces p cs)"
  by pat_completeness auto
termination
proof (relation "measure (\<lambda>(p, s). length s)", goal_cases)
  case 1
  show ?case by simp
next
  case (2 p c cs)
  have "length (dropWhile is_space (drop (length p) (c # cs))) \<le> length (drop (length p) (c # cs))"
    by (rule length_dropWhile_le)
  moreover from 2 have "length (drop (length p) (c # cs)) < length (c # cs)"
    by (cases p) auto
  ultimately show ?case by simp
next
  case (3 p c cs)
  show ?case by simp
qed

text \<open>
  \<open>s.replace(/p\s*$/g, '')\<close>: without the \<open>m\<close> flag \<open>$\<close> is the end of the
  input, so the one match is the leftmost \<open>p\<close> that only white space follows.
\<close>

fun remove_at_end :: "jstring \<Rightarrow> jstring \<Rightarrow> jstring" where
  "remove_at_end p [] = []"
| "remove_at_end p (c # cs) =
     (if startsWith (c # cs) p \<and> list_all is_space (drop (length p) (c # cs))
      then []
      else c # remove_at_end p cs)"

text \<open>
  \<open>s.replace(/^["']|["']$/g, '')\<close>: a quote character at the start is removed, and a
  quote character at the end of what is left (a string that is one quote alone is
  matched once, by the first alternative).
\<close>

definition is_quote :: "nat \<Rightarrow> bool" where
  "is_quote c \<longleftrightarrow> c = DQUOTE \<or> c = SQUOTE"

definition strip_quotes :: "jstring \<Rightarrow> jstring" where
  "strip_quotes s =
     (let s1 = (case s of [] \<Rightarrow> [] | c # cs \<Rightarrow> if is_quote c then cs else s)
      in if s1 \<noteq> [] \<and> is_quote (last s1) then butlast s1 else s1)"

text \<open>
  \<open>s.match(/"key"\s*:\s*"([^"]*(?:\\.[^"]*)*)"/)\<close>, the value of group 1.
  \<open>[^"]*\<close> is greedy and a backslash is not a quote, so it runs to the next quote
  character (or to the end of the input); there \<open>\\.\<close> cannot match, so the
  group \<open>(?:\\.[^"]*)*\<close> is empty, and the closing quote matches exactly when a quote
  character is left. Group 1 is therefore the text between the opening quote and the
  next quote character, escaped or not, of the leftmost place where the key, a colon and
  an opening quote stand and a quote character follows. \<open>None\<close> is no match.
\<close>

definition match_key_here :: "jstring \<Rightarrow> jstring \<Rightarrow> jstring option" where
  "match_key_here key s =
     (if startsWith s ([DQUOTE] @ key @ [DQUOTE])
      then (case dropWhile is_space (drop (length key + 2) s) of
              [] \<Rightarrow> None
            | c # r \<Rightarrow>
                if c = COLON
                then (case dropWhile is_space r of
                        [] \<Rightarrow> None
                      | q # v \<Rightarrow>
                          if q = DQUOTE \<and> DQUOTE \<in> set v
                          then Some (takeWhile (\<lambda>x. x \<noteq> DQUOTE) v)
                          else None)
                else None)
      else None)"

fun match_key :: "jstring \<Rightarrow> jstring \<Rightarrow> jstring option" where
  "match_key key [] = match_key_here key []"
| "match_key key (c # cs) =
     (case match_key_here key (c # cs) of
        Some g \<Rightarrow> Some g
      | None \<Rightarrow> match_key key cs)"

text \<open>
  \<open>line.replace(/subject:?\s*/i, '')\<close>: the first \<open>subject\<close> in any case, the
  colon after it when there is one, and the white space that follows are removed; the
  rest of the line stays, also what stands before the match.
\<close>

fun remove_subject_token :: "jstring \<Rightarrow> jstring" where
  "remove_subject_token [] = []"
| "remove_subject_token (c # cs) =
     (if startsWith (toLowerCase (c # cs)) (js ''subject'')
      then (case drop 7 (c # cs) of
              [] \<Rightarrow> []
            | x # xs \<Rightarrow> dropWhile is_space (if x = COLON then xs else x # xs))
      else c # remove_subject_token cs)"

text \<open>\<open>s.replace(/[{}]/g, '')\<close>.\<close>

definition remove_braces :: "jstring \<Rightarrow> jstring" where
  "remove_braces s = filter (\<lambda>c. c \<noteq> LBRACE \<and> c \<noteq> RBRACE) s"

section \<open>JSON.parse\<close>

text \<open>
  The values \<open>JSON.parse\<close> returns. A number is kept as its decimal mantissa and
  exponent (the literal \<open>12.5e3\<close> is \<open>JNumber 125 2\<close>): the services only ask
  a number for its type and for its truth value.
\<close>

datatype json =
    JNull
  | JBool bool
  | JNumber int int
  | JString jstring
  | JArray "json list"
  | JObject "(jstring \<times> json) list"

datatype js_error =
    SyntaxError
  | TypeError
  | Error jstring

definition json_space :: "nat \<Rightarrow> bool" where
  "json_space c \<longleftrightarrow> c = 32 \<or> c = 9 \<or> c = 10 \<or> c = 13"

definition skip_ws :: "jstring \<Rightarrow> jstring" where
  "skip_ws s = dropWhile json_space s"

definition is_digit :: "nat \<Rightarrow> bool" where
  "is_digit c \<longleftrightarrow> 48 \<le> c \<and> c \<le> 57"

definition hex_value :: "nat \<Rightarrow> nat option" where
  "hex_value c =
     (if 48 \<le> c \<and> c \<le> 57 then Some (c - 48)
      else if 65 \<le> c \<and> c \<le> 70 then Some (c - 55)
      else if 97 \<le> c \<and> c \<le> 102 then Some (c - 87)
      else None)"

text \<open>The character an escape \<open>\c\<close> stands for (\<open>\u\<close> is read apart).\<close>

definition unescape :: "nat \<Rightarrow> nat option" where
  "unescape e =
     (if e = DQUOTE then Some DQUOTE
      else if e = BACKSLASH then Some BACKSLASH
      else if e = 47 then Some 47
      else if e = 98 then Some 8
      else if e = 102 then Some 12
      else if e = 110 then Some LF
      else if e = 114 then Some 13
      else if e = 116 then Some 9
      else None)"

text \<open>
  The characters of a string literal after its opening quote: the decoded string and the
  input after the closing quote. A control character below U+0020 is refused.
\<close>

fun parse_chars :: "jstring \<Rightarrow> (jstring \<times> jstring) option" where
  "parse_chars [] = None"
| "parse_chars (c # cs) =
     (if c = DQUOTE then Some ([], cs)
      else if c = BACKSLASH then
        (case cs of
           [] \<Rightarrow> None
         | e # es \<Rightarrow>
             if e = 117 then
               (case es of
                  h1 # h2 # h3 # h4 # r \<Rightarrow>
                    (case (hex_value h1, hex_value h2, hex_value h3, hex_value h4) of
                       (Some a, Some b, Some c', Some d) \<Rightarrow>
                         map_option (\<lambda>(t, r'). ((a * 4096 + b * 256 + c' * 16 + d) # t, r'))
                           (parse_chars r)
                     | _ \<Rightarrow> None)
                | _ \<Rightarrow> None)
             else
               (case unescape e of
                  None \<Rightarrow> None
                | Some x \<Rightarrow> map_option (\<lambda>(t, r'). (x # t, r')) (parse_chars es)))
      else if c < 32 then None
      else map_option (\<lambda>(t, r'). (c # t, r')) (parse_chars cs))"

definition digits_value :: "jstring \<Rightarrow> nat" where
  "digits_value ds = foldl (\<lambda>a d. 10 * a + (d - 48)) 0 ds"

text \<open>
  A number literal: \<open>-? (0 | [1-9][0-9]*) (. [0-9]+)? ([eE] [+-]? [0-9]+)?\<close>,
  read in its three parts; each part gives what it read and the input after it. The
  input after the literal is returned; what may follow a number is decided by the caller.
\<close>

definition number_int :: "jstring \<Rightarrow> (jstring \<times> jstring) option" where
  "number_int s =
     (case s of
        [] \<Rightarrow> None
      | d # r \<Rightarrow>
          if d = 48 then Some ([48], r)
          else if is_digit d then Some (takeWhile is_digit s, dropWhile is_digit s)
          else None)"

definition number_frac :: "jstring \<Rightarrow> (jstring \<times> jstring) option" where
  "number_frac s =
     (case s of
        [] \<Rightarrow> Some ([], s)
      | d # r \<Rightarrow>
          if d = 46
          then (if takeWhile is_digit r = [] then None
                else Some (takeWhile is_digit r, dropWhile is_digit r))
          else Some ([], s))"

definition number_exp :: "jstring \<Rightarrow> (int \<times> jstring) option" where
  "number_exp s =
     (case s of
        [] \<Rightarrow> Some (0, s)
      | d # r \<Rightarrow>
          if d = 101 \<or> d = 69
          then (let eneg = (r \<noteq> [] \<and> hd r = 45);
                    r1 = (if r \<noteq> [] \<and> (hd r = 45 \<or> hd r = 43) then tl r else r);
                    e = int (digits_value (takeWhile is_digit r1))
                in if takeWhile is_digit r1 = [] then None
                   else Some (if eneg then - e else e, dropWhile is_digit r1))
          else Some (0, s))"

definition parse_number :: "jstring \<Rightarrow> (json \<times> jstring) option" where
  "parse_number s =
     (let neg = (s \<noteq> [] \<and> hd s = 45)
      in case number_int (if neg then tl s else s) of
           None \<Rightarrow> None
         | Some (ip, s2) \<Rightarrow>
             (case number_frac s2 of
                None \<Rightarrow> None
              | Some (fp, s3) \<Rightarrow>
                  (case number_exp s3 of
                     None \<Rightarrow> None
                   | Some (e, s4) \<Rightarrow>
                       Some (JNumber (if neg then - int (digits_value (ip @ fp))
                                      else int (digits_value (ip @ fp)))
                                     (e - int (length fp)), s4))))"

text \<open>
  The recursive descent over values, members of an object and elements of an array.
  The first argument bounds the depth of the calls: a call consumes a character before
  it descends two levels, so \<open>JSON_parse\<close> starts with more than twice the length
  of its input, and the bound is never what makes a parse fail (\<open>JSON_parse_fuel\<close>
  below).
\<close>

fun parse_value :: "nat \<Rightarrow> jstring \<Rightarrow> (json \<times> jstring) option"
  and parse_members :: "nat \<Rightarrow> jstring \<Rightarrow> ((jstring \<times> json) list \<times> jstring) option"
  and parse_elements :: "nat \<Rightarrow> jstring \<Rightarrow> (json list \<times> jstring) option"
where
  "parse_value 0 s = None"
| "parse_value (Suc n) s =
     (case skip_ws s of
        [] \<Rightarrow> None
      | c # cs \<Rightarrow>
          if c = LBRACE then
            (case skip_ws cs of
               [] \<Rightarrow> None
             | d # r \<Rightarrow>
                 if d = RBRACE then Some (JObject [], r)
                 else map_option (\<lambda>(ms, r'). (JObject ms, r')) (parse_members n cs))
          else if c = 91 then
            (case skip_ws cs of
               [] \<Rightarrow> None
             | d # r \<Rightarrow>
                 if d = 93 then Some (JArray [], r)
                 else map_option (\<lambda>(vs, r'). (JArray vs, r')) (parse_elements n cs))
          else if c = DQUOTE then map_option (\<lambda>(t, r'). (JString t, r')) (parse_chars cs)
          else if startsWith (c # cs) (js ''true'') then Some (JBool True, drop 4 (c # cs))
          else if startsWith (c # cs) (js ''false'') then Some (JBool False, drop 5 (c # cs))
          else if startsWith (c # cs) (js ''null'') then Some (JNull, drop 4 (c # cs))
          else parse_number (c # cs))"
| "parse_members 0 s = None"
| "parse_members (Suc n) s =
     (case skip_ws s of
        [] \<Rightarrow> None
      | c # cs \<Rightarrow>
          if c = DQUOTE then
            (case parse_chars cs of
               None \<Rightarrow> None
             | Some (k, r1) \<Rightarrow>
                 (case skip_ws r1 of
                    [] \<Rightarrow> None
                  | d # r2 \<Rightarrow>
                      if d = COLON then
                        (case parse_value n r2 of
                           None \<Rightarrow> None
                         | Some (v, r3) \<Rightarrow>
                             (case skip_ws r3 of
                                [] \<Rightarrow> None
                              | x # r4 \<Rightarrow>
                                  if x = 44 then
                                    map_option (\<lambda>(ms, r'). ((k, v) # ms, r')) (parse_members n r4)
                                  else if x = RBRACE then Some ([(k, v)], r4)
                                  else None))
                      else None))
          else None)"
| "parse_elements 0 s = None"
| "parse_elements (Suc n) s =
     (case parse_value n s of
        None \<Rightarrow> None
      | Some (v, r1) \<Rightarrow>
          (case skip_ws r1 of
             [] \<Rightarrow> None
           | x # r2 \<Rightarrow>
               if x = 44 then map_option (\<lambda>(vs, r'). (v # vs, r')) (parse_elements n r2)
               else if x = 93 then Some ([v], r2)
               else None))"

text \<open>\<open>JSON.parse(text)\<close>: the value, or a SyntaxError; only white space may follow the value.\<close>

definition JSON_parse :: "jstring \<Rightarrow> js_error + json" where
  "JSON_parse s =
     (case parse_value (Suc (2 * length s)) s of
        None \<Rightarrow> Inl SyntaxError
      | Some (v, r) \<Rightarrow> if skip_ws r = [] then Inr v else Inl SyntaxError)"

text \<open>
  \<open>parsed.subject\<close> and \<open>parsed.body\<close>: reading a property of \<open>null\<close> throws a
  TypeError; of an object, the value of the last member with that key, or
  \<open>undefined\<close> (\<open>None\<close>); a string, a number, a boolean and an array have neither
  property.
\<close>

fun get_prop :: "json \<Rightarrow> jstring \<Rightarrow> js_error + json option" where
  "get_prop JNull k = Inl TypeError"
| "get_prop (JObject ms) k = Inr (map_of (rev ms) k)"
| "get_prop v k = Inr None"

text \<open>
  The truth value of a property: \<open>undefined\<close>, \<open>null\<close>, \<open>false\<close>, the empty string
  and a number that is zero as a double are false. A literal is zero as a double when
  its mantissa is zero or its value is at most \<open>2^-1075\<close>, which rounds to zero.
\<close>

fun truthy :: "json option \<Rightarrow> bool" where
  "truthy None = False"
| "truthy (Some JNull) = False"
| "truthy (Some (JBool b)) = b"
| "truthy (Some (JNumber m e)) =
     (m \<noteq> 0 \<and> (0 \<le> e \<or> 10 ^ nat (- e) < \<bar>m\<bar> * 2 ^ 1075))"
| "truthy (Some (JString s)) = (s \<noteq> [])"
| "truthy (Some (JArray vs)) = True"
| "truthy (Some (JObject ms)) = True"

section \<open>The response normalizer (aiService.generateEmail)\<close>

record generated_email =
  subject :: jstring
  body :: jstring

definition placeholder_subject :: jstring where
  "placeholder_subject = js ''Generated Email''"

text \<open>
  Fence stripping and brace bounding (the source's lines 161 to 176): the response is
  trimmed, the markers are removed, and the text is cut to the span from the first
  \<open>{\<close> to the last \<open>}\<close> when both exist.
\<close>

definition fence :: jstring where
  "fence = [96, 96, 96]"

definition strip_fences :: "jstring \<Rightarrow> jstring" where
  "strip_fences r0 =
     (let r1 = (if includes_str r0 (fence @ js ''json'')
                then remove_at_end fence (remove_with_spaces (fence @ js ''json'') r0)
                else r0)
      in if includes_str r1 fence
         then remove_at_end fence (remove_with_spaces fence r1)
         else r1)"

definition bound_braces :: "jstring \<Rightarrow> jstring" where
  "bound_braces r =
     (case (indexOf r LBRACE, lastIndexOf r RBRACE) of
        (Some firstBrace, Some lastBrace) \<Rightarrow> substring r firstBrace (lastBrace + 1)
      | _ \<Rightarrow> r)"

definition clean_response :: "jstring \<Rightarrow> jstring" where
  "clean_response raw = bound_braces (strip_fences (trim raw))"

text \<open>
  The \<open>try\<close> block (lines 178 to 208). \<open>unescape_newlines\<close> is
  \<open>replace(/\\n/g, '\n')\<close>. The block throws when \<open>JSON.parse\<close> does, when the
  parsed value is \<open>null\<close>, and when the cleaned body holds \<open>"subject"\<close> or
  \<open>"body"\<close>.
\<close>

definition unescape_newlines :: "jstring \<Rightarrow> jstring" where
  "unescape_newlines s = replaceAll [BACKSLASH, 110] [LF] s"

definition unescape_quotes :: "jstring \<Rightarrow> jstring" where
  "unescape_quotes s = replaceAll [BACKSLASH, DQUOTE] [DQUOTE] s"

definition string_or :: "json option \<Rightarrow> jstring \<Rightarrow> jstring" where
  "string_or v d = (case v of Some (JString s) \<Rightarrow> s | _ \<Rightarrow> d)"

definition has_json_structure :: "jstring \<Rightarrow> bool" where
  "has_json_structure b \<longleftrightarrow>
     includes_str b (js ''\"subject\"'') \<or> includes_str b (js ''\"body\"'')"

text \<open>
  Lines 183 to 188: the subject and the body the \<open>try\<close> block extracts from the
  two properties (a property that is not a string gives the placeholder, and the whole
  response for the body).
\<close>

definition cleaned_subject :: "json option \<Rightarrow> jstring" where
  "cleaned_subject ps = trim (strip_quotes (string_or ps placeholder_subject))"

definition cleaned_body :: "json option \<Rightarrow> jstring \<Rightarrow> jstring" where
  "cleaned_body pb response = trim (unescape_newlines (strip_quotes (string_or pb response)))"

definition parse_response :: "jstring \<Rightarrow> js_error + generated_email" where
  "parse_response response =
     (case JSON_parse response of
        Inl err \<Rightarrow> Inl err
      | Inr parsed \<Rightarrow>
          (case get_prop parsed (js ''subject'') of
             Inl err \<Rightarrow> Inl err
           | Inr ps \<Rightarrow>
               (case get_prop parsed (js ''body'') of
                  Inl err \<Rightarrow> Inl err
                | Inr pb \<Rightarrow>
                    if has_json_structure (cleaned_body pb response)
                    then Inl (Error (js ''Body contains JSON structure''))
                    else Inr \<lparr>subject = cleaned_subject ps,
                              body = cleaned_body pb response\<rparr>)))"

text \<open>
  The \<open>catch\<close> block (lines 209 to 254): the manual extraction from the cleaned
  response. A match whose group is empty counts as no match (\<open>match[1]\<close> is then
  false).
\<close>

definition nonempty_match :: "jstring \<Rightarrow> jstring \<Rightarrow> jstring option" where
  "nonempty_match key s =
     (case match_key key s of
        None \<Rightarrow> None
      | Some g \<Rightarrow> if g = [] then None else Some g)"

definition is_subject_line :: "jstring \<Rightarrow> bool" where
  "is_subject_line l \<longleftrightarrow> includes_str (toLowerCase l) (js ''subject:'')"

text \<open>\<open>lines.findIndex(p)\<close>, and \<open>lines.splice(i, 1)\<close>.\<close>

fun findIndex :: "('a \<Rightarrow> bool) \<Rightarrow> 'a list \<Rightarrow> nat option" where
  "findIndex p [] = None"
| "findIndex p (x # xs) = (if p x then Some 0 else map_option Suc (findIndex p xs))"

definition splice1 :: "nat \<Rightarrow> 'a list \<Rightarrow> 'a list" where
  "splice1 i xs = take i xs @ drop (Suc i) xs"

definition nonblank_lines :: "jstring \<Rightarrow> jstring list" where
  "nonblank_lines response = filter (\<lambda>l. trim l \<noteq> []) (split_lines response)"

definition plain_text_fallback :: "jstring \<Rightarrow> jstring \<Rightarrow> generated_email" where
  "plain_text_fallback subj0 response =
     (let lines = nonblank_lines response;
          (subj, bdy) =
            (case findIndex is_subject_line lines of
               None \<Rightarrow> (subj0, trim response)
             | Some i \<Rightarrow>
                 (trim (remove_subject_token (lines ! i)),
                  trim (join [LF] (splice1 i lines))))
      in \<lparr>subject = subj, body = remove_braces (strip_quotes bdy)\<rparr>)"

definition manual_extraction :: "jstring \<Rightarrow> generated_email" where
  "manual_extraction response =
     (let subj0 = (case nonempty_match (js ''subject'') response of
                     None \<Rightarrow> placeholder_subject
                   | Some g \<Rightarrow> trim (unescape_quotes g))
      in case nonempty_match (js ''body'') response of
           Some g \<Rightarrow> \<lparr>subject = subj0, body = trim (unescape_quotes (unescape_newlines g))\<rparr>
         | None \<Rightarrow> plain_text_fallback subj0 response)"

text \<open>
  \<open>normalize\<close> is the part of \<open>generateEmail\<close> after the completion has arrived:
  whatever the \<open>try\<close> block throws is caught and the manual extraction answers.
\<close>

definition normalize :: "jstring \<Rightarrow> js_error + generated_email" where
  "normalize raw =
     (let response = clean_response raw
      in case parse_response response of
           Inr e \<Rightarrow> Inr e
         | Inl err \<Rightarrow> Inr (manual_extraction response))"



section \<open>The body renderer (emailService.formatEmailBody, stripHtml)\<close>

text \<open>
  The body is a string wherever the service is called (the route checks it with
  \<open>Joi.string()\<close>), so the branches of \<open>formatEmailBody\<close> for a body that is an
  object are outside the model.

  The emergency fix (lines 131 to 142): a body that holds \<open>"subject"\<close> and \<open>"body"\<close>
  is replaced by the value the \<open>"body"\<close> pattern finds in it, when that is not empty.
\<close>

definition emergency_extract :: "jstring \<Rightarrow> jstring" where
  "emergency_extract b =
     (if includes_str b (js ''\"subject\"'') \<and> includes_str b (js ''\"body\"'')
      then (case nonempty_match (js ''body'') b of
              None \<Rightarrow> b
            | Some g \<Rightarrow> unescape_quotes (unescape_newlines g))
      else b)"

text \<open>
  The \<open>try\<close> block of lines 158 to 166, for a body that starts with \<open>{\<close> and ends
  with \<open>}\<close>; \<open>cur\<close> is \<open>emailBody\<close> as the emergency fix left it. A \<open>body\<close>
  member that is true but not a string is assigned and then throws a TypeError in the
  log line (\<open>emailBody?.substring\<close> is not a function), which the \<open>catch\<close> answers.
\<close>

definition parse_body :: "jstring \<Rightarrow> jstring \<Rightarrow> js_error + jstring" where
  "parse_body b cur =
     (case JSON_parse b of
        Inl err \<Rightarrow> Inl err
      | Inr parsed \<Rightarrow>
          (case get_prop parsed (js ''body'') of
             Inl err \<Rightarrow> Inl err
           | Inr pb \<Rightarrow>
               if truthy pb
               then (case pb of Some (JString s) \<Rightarrow> Inr s | _ \<Rightarrow> Inl TypeError)
               else (case get_prop parsed (js ''subject'') of
                       Inl err \<Rightarrow> Inl err
                     | Inr ps \<Rightarrow>
                         if truthy ps \<and> pb = None
                         then Inr (js ''Error: Parsed email missing body content'')
                         else Inr cur)))"

definition looks_like_json :: "jstring \<Rightarrow> bool" where
  "looks_like_json b \<longleftrightarrow> startsWith (trim b) [LBRACE] \<and> endsWith (trim b) [RBRACE]"

text \<open>\<open>emailBody\<close> when line 181 is reached.\<close>

definition email_body_of :: "jstring \<Rightarrow> jstring" where
  "email_body_of b =
     (let cur = emergency_extract b
      in if looks_like_json b
         then (case parse_body b cur of
                 Inr e \<Rightarrow> e
               | Inl err \<Rightarrow> unescape_newlines (strip_quotes b))
         else cur)"

text \<open>
  Lines 182 to 187. \<open>/^/\<close> and \<open>/$/\<close> have no \<open>m\<close> flag: they match once, at the
  start and at the end of the whole text.
\<close>

definition to_html :: "jstring \<Rightarrow> jstring" where
  "to_html e =
     replaceAll (js ''<p></p>'') []
       (js ''<p>'' @ replaceAll [LF] (js ''<br>'') (replaceAll [LF, LF] (js ''</p><p>'') e)
          @ js ''</p>'')"

definition formatEmailBody :: "jstring \<Rightarrow> jstring" where
  "formatEmailBody b = to_html (email_body_of b)"

text \<open>
  \<open>html.replace(/<[^>]*>/g, '')\<close>: a tag runs from a \<open><\<close> to the next \<open>>\<close>,
  line breaks included; a \<open><\<close> that no \<open>>\<close> follows stays.
\<close>

function strip_tags :: "jstring \<Rightarrow> jstring" where
  "strip_tags [] = []"
| "strip_tags (c # cs) =
     (if c = 60 \<and> 62 \<in> set cs
      then strip_tags (tl (dropWhile (\<lambda>x. x \<noteq> 62) cs))
      else c # strip_tags cs)"
  by pat_completeness auto
termination
proof (relation "measure length", goal_cases)
  case 1
  show ?case by simp
next
  case (2 c cs)
  have "length (dropWhile (\<lambda>x. x \<noteq> 62) cs) \<le> length cs"
    by (rule length_dropWhile_le)
  then show ?case by simp
next
  case (3 c cs)
  show ?case by simp
qed

definition stripHtml :: "jstring \<Rightarrow> jstring" where
  "stripHtml h = replaceAll (js ''&nbsp;'') [32] (strip_tags h)"

text \<open>
  The two representations of a message, as \<open>sendEmail\<close> builds them (lines 81 and
  82): the HTML part is \<open>formatEmailBody(body)\<close>, the plain-text part is
  \<open>stripHtml(body)\<close>.
\<close>

record rendered =
  html_part :: jstring
  text_part :: jstring

definition render :: "jstring \<Rightarrow> rendered" where
  "render b = \<lparr>html_part = formatEmailBody b, text_part = stripHtml b\<rparr>"

subsection \<open>The rendering rule as the specification words it\<close>

text \<open>
  One pass over the text: a double line break becomes a paragraph boundary, a line break
  that is left becomes \<open><br>\<close>; the result is wrapped in \<open><p>\<close> and \<open></p>\<close> and
  the empty paragraphs are removed.
\<close>

fun line_breaks_spec :: "jstring \<Rightarrow> jstring" where
  "line_breaks_spec [] = []"
| "line_breaks_spec [c] = (if c = LF then js ''<br>'' else [c])"
| "line_breaks_spec (c # d # cs) =
     (if c = LF \<and> d = LF then js ''</p><p>'' @ line_breaks_spec cs
      else if c = LF then js ''<br>'' @ line_breaks_spec (d # cs)
      else c # line_breaks_spec (d # cs))"

fun remove_empty_paragraphs_spec :: "jstring \<Rightarrow> jstring" where
  "remove_empty_paragraphs_spec [] = []"
| "remove_empty_paragraphs_spec (c # cs) =
     (if startsWith (c # cs) (js ''<p></p>'')
      then remove_empty_paragraphs_spec (drop 7 (c # cs))
      else c # remove_empty_paragraphs_spec cs)"

definition render_html_spec :: "jstring \<Rightarrow> jstring" where
  "render_html_spec b =
     remove_empty_paragraphs_spec (js ''<p>'' @ line_breaks_spec b @ js ''</p>'')"

text \<open>
  A body that needs no defensive re-normalization: it does not hold both \<open>"subject"\<close>
  and \<open>"body"\<close>, and it does not look like a JSON object.
\<close>

definition fully_normalized :: "jstring \<Rightarrow> bool" where
  "fully_normalized b \<longleftrightarrow>
     \<not> (includes_str b (js ''\"subject\"'') \<and> includes_str b (js ''\"body\"'')) \<and>
     \<not> looks_like_json b"

text \<open>Equality up to white space: the texts agree once every white-space character is dropped.\<close>

definition drop_spaces :: "jstring \<Rightarrow> jstring" where
  "drop_spaces s = filter (\<lambda>c. \<not> is_space c) s"

text \<open>A tag is left in a text when a \<open><\<close> is followed, anywhere later, by a \<open>>\<close>.\<close>

fun has_tag :: "jstring \<Rightarrow> bool" where
  "has_tag [] = False"
| "has_tag (c # cs) = ((c = 60 \<and> 62 \<in> set cs) \<or> has_tag cs)"

section \<open>The orchestrator (emailService.sendEmail)\<close>

text \<open>
  \<open>validateEmail\<close> tests \<open>/^[^\s@]+@[^\s@]+\.[^\s@]+$/\<close>: no white space, one
  \<open>@\<close> with text before it, and after it a dot that has text on both sides.
\<close>

definition validateEmail :: "jstring \<Rightarrow> bool" where
  "validateEmail e =
     (let l = takeWhile (\<lambda>c. c \<noteq> 64) e;
          r = dropWhile (\<lambda>c. c \<noteq> 64) e;
          d = tl r
      in l \<noteq> [] \<and> list_all (\<lambda>c. \<not> is_space c) l \<and> r \<noteq> [] \<and>
         list_all (\<lambda>c. \<not> is_space c \<and> c \<noteq> 64) d \<and> 46 \<in> set (butlast (tl d)))"

text \<open>The decimal digits of a number, as a template literal prints it.\<close>

fun show_nat :: "nat \<Rightarrow> jstring" where
  "show_nat n = (if n < 10 then [48 + n] else show_nat (n div 10) @ [48 + n mod 10])"

text \<open>
  \<open>validateEmailList\<close>: the entries are visited in order with their index; each is
  trimmed and goes to \<open>validEmails\<close>, or leaves one message in \<open>errors\<close>.
\<close>

definition empty_entry_error :: "nat \<Rightarrow> jstring" where
  "empty_entry_error index = js ''Email at position '' @ show_nat (index + 1) @ js '' is empty''"

definition invalid_format_error :: "jstring \<Rightarrow> jstring" where
  "invalid_format_error trimmedEmail = js ''Invalid email format: '' @ trimmedEmail"

definition validate_entry ::
  "nat \<Rightarrow> jstring \<Rightarrow> jstring list \<times> jstring list \<Rightarrow> jstring list \<times> jstring list" where
  "validate_entry index entry acc =
     (let trimmedEmail = trim entry
      in if trimmedEmail = [] then (fst acc, snd acc @ [empty_entry_error index])
         else if \<not> validateEmail trimmedEmail
         then (fst acc, snd acc @ [invalid_format_error trimmedEmail])
         else (fst acc @ [trimmedEmail], snd acc))"

fun validate_from ::
  "nat \<Rightarrow> jstring list \<Rightarrow> jstring list \<times> jstring list \<Rightarrow> jstring list \<times> jstring list" where
  "validate_from index [] acc = acc"
| "validate_from index (entry # rest) acc =
     validate_from (Suc index) rest (validate_entry index entry acc)"

text \<open>An entry passes validation when it is not blank and its trimmed text is an address.\<close>

definition passes_validation :: "jstring \<Rightarrow> bool" where
  "passes_validation entry \<longleftrightarrow> trim entry \<noteq> [] \<and> validateEmail (trim entry)"

text \<open>The pair is \<open>(validEmails, errors)\<close>.\<close>

definition validateEmailList :: "jstring list \<Rightarrow> jstring list \<times> jstring list" where
  "validateEmailList emails = validate_from 0 emails ([], [])"

text \<open>
  The transport is nodemailer's transporter, outside the repository: a state of its own
  (the server, the connection) and two operations that answer and change it. An error of
  the transport has a \<open>code\<close> (or none) and a \<open>message\<close>.
\<close>

record transport_error =
  code :: "jstring option"
  message :: jstring

record mail_options =
  mail_from :: jstring
  mail_to :: jstring
  mail_subject :: jstring
  mail_html :: jstring
  mail_text :: jstring

record 'st transporter =
  verify :: "'st \<Rightarrow> transport_error option \<times> 'st"
  sendMail :: "'st \<Rightarrow> mail_options \<Rightarrow> (transport_error + jstring) \<times> 'st"

datatype transport_call = Verify | SendMail mail_options

record sent_entry =
  email :: jstring
  status :: jstring
  messageId :: jstring

record failed_entry =
  failed_email :: jstring
  error :: jstring

record delivery_report =
  success :: bool
  totalRecipients :: nat
  successful :: nat
  failed :: nat
  results :: "sent_entry list"
  failures :: "failed_entry list"

definition mailOptions_for :: "jstring \<Rightarrow> jstring \<Rightarrow> jstring \<Rightarrow> jstring \<Rightarrow> jstring \<Rightarrow> mail_options" where
  "mailOptions_for sender user subj bdy addr =
     \<lparr>mail_from = [DQUOTE] @ sender @ [DQUOTE] @ js '' <'' @ user @ js ''>'',
      mail_to = addr,
      mail_subject = subj,
      mail_html = html_part (render bdy),
      mail_text = text_part (render bdy)\<rparr>"

text \<open>
  The loop of lines 75 to 98 over \<open>validEmails\<close>. The state is \<open>results\<close>,
  \<open>failedEmails\<close>, the calls made to the transport so far and the transport's state.
\<close>

fun send_each ::
  "'st transporter \<Rightarrow> (jstring \<Rightarrow> mail_options) \<Rightarrow> jstring list \<Rightarrow>
   sent_entry list \<times> failed_entry list \<times> transport_call list \<times> 'st \<Rightarrow>
   sent_entry list \<times> failed_entry list \<times> transport_call list \<times> 'st" where
  "send_each t mk [] acc = acc"
| "send_each t mk (addr # rest) (sent, fails, trace, s) =
     (case sendMail t s (mk addr) of
        (Inr mid, s') \<Rightarrow>
          send_each t mk rest
            (sent @ [\<lparr>email = addr, status = js ''sent'', messageId = mid\<rparr>], fails,
             trace @ [SendMail (mk addr)], s')
      | (Inl err, s') \<Rightarrow>
          send_each t mk rest
            (sent, fails @ [\<lparr>failed_email = addr, error = message err\<rparr>],
             trace @ [SendMail (mk addr)], s'))"

text \<open>The outer \<open>catch\<close> (lines 109 to 121), reached when \<open>verify()\<close> fails.\<close>

definition connection_failure :: "transport_error \<Rightarrow> js_error" where
  "connection_failure err =
     (if code err = Some (js ''EAUTH'')
      then Error (js ''Email authentication failed. Please check your email credentials.'')
      else if code err = Some (js ''ECONNECTION'')
      then Error (js ''Failed to connect to email server. Please check your network connection.'')
      else Error (js ''Email sending failed: '' @ message err))"

definition validation_failed :: "jstring list \<Rightarrow> jstring" where
  "validation_failed errors = js ''Email validation failed: '' @ join (js '', '') errors"

text \<open>
  \<open>sendEmail\<close>. The transporter is \<open>None\<close> when the service has no configuration;
  \<open>user\<close> is \<open>process.env.EMAIL_USER\<close>; \<open>senderName\<close> is \<open>None\<close> when the
  caller leaves it out. The result is what the call returns or throws, the calls it made
  to the transport, and the transport's state afterwards.
\<close>

definition sendEmail ::
  "'st transporter option \<Rightarrow> jstring \<Rightarrow> jstring list \<Rightarrow> jstring \<Rightarrow> jstring \<Rightarrow> jstring option \<Rightarrow> 'st \<Rightarrow>
   (js_error + delivery_report) \<times> transport_call list \<times> 'st" where
  "sendEmail tr user recipients subj bdy senderName s0 =
     (case tr of
        None \<Rightarrow>
          (Inl (Error (js ''Email service is not configured. Please check your environment variables.'')),
           [], s0)
      | Some t \<Rightarrow>
          (let validEmails = fst (validateEmailList recipients);
               errors = snd (validateEmailList recipients);
               sender = (case senderName of None \<Rightarrow> js ''Email Sender App'' | Some n \<Rightarrow> n)
           in if errors \<noteq> [] then (Inl (Error (validation_failed errors)), [], s0)
              else if validEmails = [] then (Inl (Error (js ''No valid recipients found'')), [], s0)
              else
                (case verify t s0 of
                   (Some err, s1) \<Rightarrow> (Inl (connection_failure err), [Verify], s1)
                 | (None, s1) \<Rightarrow>
                     (case send_each t (mailOptions_for sender user subj bdy) validEmails
                             ([], [], [Verify], s1) of
                        (sent, fails, trace, s2) \<Rightarrow>
                          (Inr \<lparr>success = True,
                                totalRecipients = length validEmails,
                                successful = length sent,
                                failed = length fails,
                                results = sent,
                                failures = fails\<rparr>,
                           trace, s2)))))"

subsection \<open>A transport for the examples\<close>

text \<open>
  Its state counts the messages handed to it: the first is refused, the later ones are
  accepted; the connection check succeeds.
\<close>

definition flaky_transport :: "nat transporter" where
  "flaky_transport =
     \<lparr>verify = (\<lambda>s. (None, s)),
      sendMail = (\<lambda>s m.
        (if s = 0
         then Inl \<lparr>code = Some (js ''EENVELOPE''), message = js ''Mailbox unavailable''\<rparr>
         else Inr (js ''<id-'' @ show_nat s @ js ''@x.com>''),
         Suc s))\<rparr>"

section \<open>Facts about the string operations\<close>

lemma startsWith_Cons: "startsWith (c # cs) (x # xs) \<longleftrightarrow> c = x \<and> startsWith cs xs"
  by (simp add: startsWith_def)

lemma startsWith_Nil: "startsWith s [] \<longleftrightarrow> True" "startsWith [] (x # xs) \<longleftrightarrow> False"
  by (simp_all add: startsWith_def)

lemma startsWith_append: "startsWith s p \<Longrightarrow> s = p @ drop (length p) s"
  by (metis append_take_drop_id startsWith_def)

lemma set_strip_tags: "set (strip_tags s) \<subseteq> set s"
proof (induction s rule: strip_tags.induct)
  case 1
  show ?case by simp
next
  case (2 c cs)
  show ?case
  proof (cases "c = 60 \<and> 62 \<in> set cs")
    case True
    have "set (tl (dropWhile (\<lambda>x. x \<noteq> 62) cs)) \<subseteq> set cs"
      by (metis (no_types, lifting) list.sel(2) list.set_sel(2) set_dropWhileD subsetI)
    with True 2 show ?thesis by auto
  next
    case False
    with 2 show ?thesis by auto
  qed
qed

lemma no_tag_strip_tags: "\<not> has_tag (strip_tags s)"
proof (induction s rule: strip_tags.induct)
  case 1
  show ?case by simp
next
  case (2 c cs)
  show ?case
  proof (cases "c = 60 \<and> 62 \<in> set cs")
    case True
    with 2 show ?thesis by simp
  next
    case False
    with 2 set_strip_tags[of cs] show ?thesis by auto
  qed
qed

lemma strip_tags_id: "\<not> has_tag s \<Longrightarrow> strip_tags s = s"
  by (induction s) auto

lemma has_tag_filter: "has_tag (filter (\<lambda>c. c = 60 \<or> c = 62) s) = has_tag s"
  by (induction s) auto

lemma filter_replaceAll:
  "filter P p = [] \<Longrightarrow> filter P r = [] \<Longrightarrow> filter P (replaceAll p r s) = filter P s"
proof (induction p r s rule: replaceAll.induct)
  case (1 p r)
  show ?case by simp
next
  case (2 p r c cs)
  show ?case
  proof (cases "p \<noteq> [] \<and> startsWith (c # cs) p")
    case True
    then have "c # cs = p @ drop (length p) (c # cs)"
      using startsWith_append by blast
    then have "filter P (c # cs) = filter P p @ filter P (drop (length p) (c # cs))"
      by (metis filter_append)
    with True 2 show ?thesis by simp
  next
    case False
    with 2 show ?thesis by auto
  qed
qed

lemma replaceAll_id: "\<not> includes_str s p \<Longrightarrow> replaceAll p r s = s"
  by (induction s) auto

lemma startsWith_replaceAll_space:
  "startsWith (replaceAll p [32] s) q \<Longrightarrow> 32 \<notin> set q \<Longrightarrow> startsWith s q"
proof (induction q arbitrary: s)
  case Nil
  show ?case by (simp add: startsWith_def)
next
  case (Cons x q)
  show ?case
  proof (cases s)
    case Nil
    with Cons.prems show ?thesis by (simp add: startsWith_def)
  next
    case (Cons c cs)
    show ?thesis
    proof (cases "p \<noteq> [] \<and> startsWith (c # cs) p")
      case True
      with Cons.prems \<open>s = c # cs\<close> show ?thesis by (simp add: startsWith_Cons)
    next
      case False
      with Cons.prems \<open>s = c # cs\<close> have "x = c" "startsWith (replaceAll p [32] cs) q"
        by (auto simp: startsWith_Cons)
      with Cons.IH[of cs] Cons.prems(2) \<open>s = c # cs\<close> show ?thesis
        by (simp add: startsWith_Cons)
    qed
  qed
qed

lemma no_pattern_after_replaceAll_space:
  "32 \<notin> set p \<Longrightarrow> p \<noteq> [] \<Longrightarrow> \<not> includes_str (replaceAll p [32] s) p"
proof (induction p "[32::nat]" s rule: replaceAll.induct)
  case (1 p)
  then show ?case by simp
next
  case (2 p c cs)
  show ?case
  proof (cases "startsWith (c # cs) p")
    case True
    have "\<not> startsWith (32 # replaceAll p [32] (drop (length p) (c # cs))) p"
      using 2(3,4) by (cases p) (auto simp: startsWith_Cons)
    with True 2 show ?thesis by simp
  next
    case False
    have "\<not> startsWith (c # replaceAll p [32] cs) p"
    proof
      assume a: "startsWith (c # replaceAll p [32] cs) p"
      obtain x q where p: "p = x # q" using 2(4) by (cases p) auto
      with a have "x = c" "startsWith (replaceAll p [32] cs) q" by (auto simp: startsWith_Cons)
      moreover have "32 \<notin> set q" using 2(3) p by auto
      ultimately have "startsWith (c # cs) p"
        using startsWith_replaceAll_space[of p cs q] p by (simp add: startsWith_Cons)
      with False show False by simp
    qed
    with False 2 show ?thesis by simp
  qed
qed

lemma stripHtml_no_tag: "\<not> has_tag (stripHtml b)"
proof -
  have "filter (\<lambda>c. c = 60 \<or> c = 62) (stripHtml b) = filter (\<lambda>c. c = 60 \<or> c = 62) (strip_tags b)"
    unfolding stripHtml_def by (rule filter_replaceAll) (simp_all add: js_def)
  then have "has_tag (stripHtml b) = has_tag (strip_tags b)"
    by (metis has_tag_filter)
  then show ?thesis by (simp add: no_tag_strip_tags)
qed

lemma stripHtml_no_nbsp: "\<not> includes_str (stripHtml b) (js ''&nbsp;'')"
  unfolding stripHtml_def by (rule no_pattern_after_replaceAll_space) (simp_all add: js_def)

lemma stripHtml_id: "\<not> has_tag b \<Longrightarrow> \<not> includes_str b (js ''&nbsp;'') \<Longrightarrow> stripHtml b = b"
  by (simp add: stripHtml_def strip_tags_id replaceAll_id)

lemma stripHtml_idem: "stripHtml (stripHtml b) = stripHtml b"
  by (rule stripHtml_id) (rule stripHtml_no_tag, rule stripHtml_no_nbsp)



lemma replaceAll_LF_prefix:
  "LF \<notin> set u \<Longrightarrow> replaceAll [LF] r (u @ s) = u @ replaceAll [LF] r s"
  by (induction u) (auto simp: startsWith_def)

lemma line_breaks_two_pass:
  "replaceAll [LF] (js ''<br>'') (replaceAll [LF, LF] (js ''</p><p>'') s) = line_breaks_spec s"
proof (induction s rule: line_breaks_spec.induct)
  case 1
  show ?case by simp
next
  case (2 c)
  show ?case by (simp add: startsWith_def)
next
  case (3 c d cs)
  have nl: "LF \<notin> set (js ''</p><p>'')" by (simp add: js_def)
  show ?case
  proof (cases "c = LF \<and> d = LF")
    case True
    with 3 show ?thesis by (simp add: startsWith_def replaceAll_LF_prefix[OF nl])
  next
    case False
    with 3 show ?thesis by (auto simp: startsWith_def)
  qed
qed

lemma remove_empty_paragraphs_replaceAll:
  "replaceAll (js ''<p></p>'') [] s = remove_empty_paragraphs_spec s"
proof (induction s rule: remove_empty_paragraphs_spec.induct)
  case 1
  show ?case by simp
next
  case (2 c cs)
  have len: "length (js ''<p></p>'') = 7" "js ''<p></p>'' \<noteq> []" by (simp_all add: js_def)
  from 2 show ?case by (simp add: len)
qed

lemma to_html_spec: "to_html e = render_html_spec e"
  by (simp add: to_html_def render_html_spec_def line_breaks_two_pass
      remove_empty_paragraphs_replaceAll)

lemma email_body_of_normalized: "fully_normalized b \<Longrightarrow> email_body_of b = b"
  by (auto simp: fully_normalized_def email_body_of_def emergency_extract_def)

section \<open>The bound of the JSON parser is never reached\<close>

text \<open>
  Every parser returns less input than it was given, so a bound above twice the length
  of the input cannot run out: with any larger bound the result is the same. A
  SyntaxError of \<open>JSON_parse\<close> is therefore a real one.
\<close>

lemma parse_chars_rest: "parse_chars s = Some (t, r) \<Longrightarrow> length r < length s"
proof (induction "length s" arbitrary: s t r rule: less_induct)
  case less
  show ?case
  proof (cases s)
    case Nil
    with less.prems show ?thesis by simp
  next
    case (Cons c cs)
    consider (quote) "c = DQUOTE" | (esc) "c = BACKSLASH" | (plain) "c \<noteq> DQUOTE" "c \<noteq> BACKSLASH"
      by blast
    then show ?thesis
    proof cases
      case quote
      with less.prems Cons show ?thesis by auto
    next
      case plain
      with less.prems Cons obtain t' where rec: "parse_chars cs = Some (t', r)"
        by (auto split: if_splits)
      from less.hyps[OF _ rec] Cons show ?thesis by simp
    next
      case esc
      with less.prems Cons obtain e es where cs: "cs = e # es" by (cases cs) auto
      show ?thesis
      proof (cases "e = 117")
        case True
        with less.prems Cons esc cs obtain h1 h2 h3 h4 r0 t' where
          es: "es = h1 # h2 # h3 # h4 # r0" and rec: "parse_chars r0 = Some (t', r)"
          by (auto split: list.splits option.splits)
        from less.hyps[OF _ rec] Cons cs es show ?thesis by simp
      next
        case False
        with less.prems Cons esc cs obtain t' where rec: "parse_chars es = Some (t', r)"
          by (auto split: option.splits)
        from less.hyps[OF _ rec] Cons cs show ?thesis by simp
      qed
    qed
  qed
qed

lemma number_int_rest: "number_int s = Some (ip, r) \<Longrightarrow> length r < length s"
proof -
  assume a: "number_int s = Some (ip, r)"
  then obtain d cs where s: "s = d # cs" by (cases s) (auto simp: number_int_def)
  have "length (dropWhile is_digit cs) \<le> length cs" by (rule length_dropWhile_le)
  with a s show ?thesis by (auto simp: number_int_def split: if_splits)
qed

lemma number_frac_rest: "number_frac s = Some (fp, r) \<Longrightarrow> length r \<le> length s"
proof (cases s)
  case Nil
  assume "number_frac s = Some (fp, r)"
  with Nil show ?thesis by (simp add: number_frac_def)
next
  case (Cons d cs)
  assume a: "number_frac s = Some (fp, r)"
  have "length (dropWhile is_digit cs) \<le> length cs" by (rule length_dropWhile_le)
  with a Cons show ?thesis by (auto simp: number_frac_def split: if_splits)
qed

lemma number_exp_rest: "number_exp s = Some (e, r) \<Longrightarrow> length r \<le> length s"
proof (cases s)
  case Nil
  assume "number_exp s = Some (e, r)"
  with Nil show ?thesis by (simp add: number_exp_def)
next
  case (Cons d cs)
  assume a: "number_exp s = Some (e, r)"
  define r1 where "r1 = (if cs \<noteq> [] \<and> (hd cs = 45 \<or> hd cs = 43) then tl cs else cs)"
  have "length (dropWhile is_digit r1) \<le> length r1" by (rule length_dropWhile_le)
  moreover have "length r1 \<le> length cs" by (simp add: r1_def)
  moreover from a Cons have "r = dropWhile is_digit r1 \<or> r = s"
    by (auto simp: number_exp_def Let_def r1_def split: if_splits)
  ultimately show ?thesis using Cons by auto
qed

lemma parse_number_rest: "parse_number s = Some (v, r) \<Longrightarrow> length r < length s"
proof -
  assume a: "parse_number s = Some (v, r)"
  define s1 where "s1 = (if s \<noteq> [] \<and> hd s = 45 then tl s else s)"
  from a obtain ip s2 fp s3 e where
    i: "number_int s1 = Some (ip, s2)" and f: "number_frac s2 = Some (fp, s3)" and
    x: "number_exp s3 = Some (e, r)"
    by (auto simp: parse_number_def Let_def s1_def split: option.splits)
  have "length s1 \<le> length s" by (simp add: s1_def)
  with number_int_rest[OF i] number_frac_rest[OF f] number_exp_rest[OF x] show ?thesis
    by simp
qed

lemma skip_ws_length: "length (skip_ws s) \<le> length s"
  by (simp add: skip_ws_def length_dropWhile_le)

lemma skip_ws_Cons: "skip_ws s = c # cs \<Longrightarrow> length cs < length s"
  using skip_ws_length[of s] by simp

lemma parse_rest:
  "(parse_value n s = Some (v, r) \<longrightarrow> length r < length s) \<and>
   (parse_members n s = Some (ms, r) \<longrightarrow> length r < length s) \<and>
   (parse_elements n s = Some (vs, r) \<longrightarrow> length r < length s)"
proof (induction n arbitrary: s v r ms vs)
  case 0
  show ?case by simp
next
  case (Suc n)
  have value_rest: "length r' < length s'" if "parse_value n s' = Some (v', r')" for s' v' r'
    using Suc[of s' v' r'] that by blast
  have members_rest: "length r' < length s'" if "parse_members n s' = Some (ms', r')" for s' ms' r'
    using Suc[of s' _ r' ms'] that by blast
  have elements_rest: "length r' < length s'" if "parse_elements n s' = Some (vs', r')" for s' vs' r'
    using Suc[of s' _ r' _ vs'] that by blast
  have "length r < length s" if a: "parse_value (Suc n) s = Some (v, r)"
  proof -
    from a obtain c cs where sk: "skip_ws s = c # cs" by (cases "skip_ws s") auto
    note le = skip_ws_Cons[OF sk]
    consider (obj) "c = LBRACE" | (arr) "c = 91" | (str) "c = DQUOTE"
      | (other) "c \<noteq> LBRACE" "c \<noteq> 91" "c \<noteq> DQUOTE" by blast
    then show ?thesis
    proof cases
      case obj
      with a sk obtain d r0 where d: "skip_ws cs = d # r0" by (cases "skip_ws cs") auto
      show ?thesis
      proof (cases "d = RBRACE")
        case True
        with a sk obj d have "r = r0" by simp
        with skip_ws_Cons[OF d] le show ?thesis by simp
      next
        case False
        with a sk obj d obtain ms' where "parse_members n cs = Some (ms', r)" by auto
        from members_rest[OF this] le show ?thesis by simp
      qed
    next
      case arr
      with a sk obtain d r0 where d: "skip_ws cs = d # r0" by (cases "skip_ws cs") auto
      show ?thesis
      proof (cases "d = 93")
        case True
        with a sk arr d have "r = r0" by simp
        with skip_ws_Cons[OF d] le show ?thesis by simp
      next
        case False
        with a sk arr d obtain vs' where "parse_elements n cs = Some (vs', r)" by auto
        from elements_rest[OF this] le show ?thesis by simp
      qed
    next
      case str
      with a sk obtain t where "parse_chars cs = Some (t, r)" by auto
      from parse_chars_rest[OF this] le show ?thesis by simp
    next
      case other
      with a sk have
        "r = drop 4 (c # cs) \<or> r = drop 5 (c # cs) \<or> parse_number (c # cs) = Some (v, r)"
        by (auto split: if_splits)
      then have "length r \<le> length cs"
        using parse_number_rest[of "c # cs" v r] by auto
      with le show ?thesis by simp
    qed
  qed
  moreover have "length r < length s" if a: "parse_members (Suc n) s = Some (ms, r)"
  proof -
    from a obtain c cs where sk: "skip_ws s = c # cs" by (cases "skip_ws s") auto
    note le = skip_ws_Cons[OF sk]
    from a sk have c: "c = DQUOTE" by (auto split: if_splits)
    with a sk obtain k r1 where k: "parse_chars cs = Some (k, r1)"
      by (cases "parse_chars cs") auto
    with a sk c obtain d r2 where d: "skip_ws r1 = d # r2" by (cases "skip_ws r1") auto
    with a sk c k have col: "d = COLON" by (auto split: if_splits)
    with a sk c k d obtain v' r3 where v: "parse_value n r2 = Some (v', r3)"
      by (cases "parse_value n r2") auto
    with a sk c k d col obtain x r4 where x: "skip_ws r3 = x # r4" by (cases "skip_ws r3") auto
    from parse_chars_rest[OF k] skip_ws_Cons[OF d] value_rest[OF v] skip_ws_Cons[OF x] le
    have r4: "length r4 < length s" by simp
    from a sk c k d col v x have
      "r = r4 \<or> (\<exists>ms'. parse_members n r4 = Some (ms', r))"
      by (auto split: if_splits)
    with r4 members_rest show ?thesis by force
  qed
  moreover have "length r < length s" if a: "parse_elements (Suc n) s = Some (vs, r)"
  proof -
    from a obtain v' r1 where v: "parse_value n s = Some (v', r1)"
      by (cases "parse_value n s") auto
    with a obtain x r2 where x: "skip_ws r1 = x # r2" by (cases "skip_ws r1") auto
    from value_rest[OF v] skip_ws_Cons[OF x] have r2: "length r2 < length s" by simp
    from a v x have "r = r2 \<or> (\<exists>vs'. parse_elements n r2 = Some (vs', r))"
      by (auto split: if_splits)
    with r2 elements_rest show ?thesis by force
  qed
  ultimately show ?case by blast
qed


lemma parse_value_rest: "parse_value n s = Some (v, r) \<Longrightarrow> length r < length s"
  using parse_rest[of n s v r] by blast

lemma parse_fuel:
  "(2 * length s < n \<longrightarrow> parse_value (n + k) s = parse_value n s) \<and>
   (2 * length s < n \<longrightarrow> parse_members (n + k) s = parse_members n s) \<and>
   (2 * length s + 1 < n \<longrightarrow> parse_elements (n + k) s = parse_elements n s)"
proof (induction n arbitrary: s)
  case 0
  show ?case by simp
next
  case (Suc n)
  have value_fuel: "parse_value (n + k) s' = parse_value n s'" if "2 * length s' < n" for s'
    using Suc[of s'] that by blast
  have members_fuel: "parse_members (n + k) s' = parse_members n s'" if "2 * length s' < n" for s'
    using Suc[of s'] that by blast
  have elements_fuel: "parse_elements (n + k) s' = parse_elements n s'"
    if "2 * length s' + 1 < n" for s'
    using Suc[of s'] that by blast
  have "parse_value (Suc n + k) s = parse_value (Suc n) s" if l: "2 * length s < Suc n"
  proof (cases "skip_ws s")
    case Nil
    then show ?thesis by simp
  next
    case (Cons c cs)
    from skip_ws_Cons[OF Cons] l have "2 * length cs + 1 < n" by simp
    then have m: "parse_members (n + k) cs = parse_members n cs"
      and e: "parse_elements (n + k) cs = parse_elements n cs"
      using members_fuel[of cs] elements_fuel[of cs] by simp_all
    show ?thesis by (simp only: add_Suc parse_value.simps Cons list.case m e option.case prod.case)
  qed
  moreover have "parse_members (Suc n + k) s = parse_members (Suc n) s" if l: "2 * length s < Suc n"
  proof (cases "skip_ws s")
    case Nil
    then show ?thesis by simp
  next
    case sk: (Cons c cs)
    from skip_ws_Cons[OF sk] l have cs: "2 * length cs < n" by simp
    show ?thesis
    proof (cases "parse_chars cs")
      case None
      with sk show ?thesis by simp
    next
      case (Some kr)
      obtain key r1 where kr: "kr = (key, r1)" by (cases kr)
      from parse_chars_rest[of cs key r1] Some kr cs have r1: "2 * length r1 < n" by simp
      show ?thesis
      proof (cases "skip_ws r1")
        case Nil
        with sk Some kr show ?thesis by simp
      next
        case d: (Cons d r2)
        from skip_ws_Cons[OF d] r1 have r2: "2 * length r2 < n" by simp
        note vf = value_fuel[OF r2]
        show ?thesis
        proof (cases "parse_value n r2")
          case None
          show ?thesis
            by (simp only: add_Suc parse_members.simps sk list.case Some kr option.case
                prod.case d vf None)
        next
          case v: (Some vr)
          obtain v' r3 where vr: "vr = (v', r3)" by (cases vr)
          from v vr have "length r3 < length r2" by (simp add: parse_value_rest)
          with r2 have r3: "2 * length r3 < n" by simp
          show ?thesis
          proof (cases "skip_ws r3")
            case Nil
            show ?thesis
              by (simp only: add_Suc parse_members.simps sk list.case Some kr option.case
                  prod.case d vf v vr Nil)
          next
            case x: (Cons x r4)
            from skip_ws_Cons[OF x] r3 have "2 * length r4 < n" by simp
            note mf = members_fuel[OF this]
            show ?thesis
              by (simp only: add_Suc parse_members.simps sk list.case Some kr option.case
                  prod.case d vf v vr x mf)
          qed
        qed
      qed
    qed
  qed
  moreover have "parse_elements (Suc n + k) s = parse_elements (Suc n) s"
    if l: "2 * length s + 1 < Suc n"
  proof -
    from l have s: "2 * length s < n" by simp
    note vf = value_fuel[OF s]
    show ?thesis
    proof (cases "parse_value n s")
      case None
      show ?thesis by (simp only: add_Suc parse_elements.simps vf None option.case list.case prod.case)
    next
      case v: (Some vr)
      obtain v' r1 where vr: "vr = (v', r1)" by (cases vr)
      from v vr have r1: "length r1 < length s" by (simp add: parse_value_rest)
      show ?thesis
      proof (cases "skip_ws r1")
        case Nil
        show ?thesis
          by (simp only: add_Suc parse_elements.simps vf v vr option.case prod.case Nil list.case)
      next
        case x: (Cons x r2)
        from skip_ws_Cons[OF x] r1 s have "2 * length r2 + 1 < n" by simp
        note ef = elements_fuel[OF this]
        show ?thesis
          by (simp only: add_Suc parse_elements.simps vf v vr option.case prod.case x
              list.case ef)
      qed
    qed
  qed
  ultimately show ?case by blast
qed

lemma JSON_parse_fuel:
  "parse_value (Suc (2 * length s) + k) s = parse_value (Suc (2 * length s)) s"
  using parse_fuel[of s "Suc (2 * length s)" k] by simp

section \<open>The renderer's claims\<close>

text \<open>
  Claim C5, as the code has it. The plain-text part of a rendering is not taken from the
  HTML part: it is the body itself with every tag stripped and every \<open>&nbsp;\<close>
  replaced by a space. No tag and no \<open>&nbsp;\<close> is left in it.
\<close>

theorem render_text_strips_the_body:
  "text_part (render b) = replaceAll (js ''&nbsp;'') [32] (strip_tags b) \<and>
   \<not> has_tag (text_part (render b)) \<and>
   \<not> includes_str (text_part (render b)) (js ''&nbsp;'')"
  using stripHtml_no_tag[of b] stripHtml_no_nbsp[of b]
  by (simp add: render_def stripHtml_def)

text \<open>
  Claim C5 as it is stated fails for a body of two lines: the plain-text part keeps the
  line break, and stripping the HTML part would lose it.
\<close>

theorem render_text_counterexample:
  "text_part (render (js ''a\<newline>b'')) = js ''a\<newline>b'' \<and>
   html_part (render (js ''a\<newline>b'')) = js ''<p>a<br>b</p>'' \<and>
   stripHtml (html_part (render (js ''a\<newline>b''))) = js ''ab'' \<and>
   text_part (render (js ''a\<newline>b'')) \<noteq> stripHtml (html_part (render (js ''a\<newline>b'')))"
  by code_simp

text \<open>
  Claim C6. For a fully normalized body the HTML part is the rendering rule of the
  specification: double line breaks become paragraph boundaries, the line breaks left
  become \<open><br>\<close>, the text is wrapped in \<open><p>\<close> and \<open></p>\<close>, and the empty
  paragraphs are removed. The body \<open>Para one.\n\nPara two.\<close> renders to the HTML
  \<open><p>Para one.</p><p>Para two.</p>\<close> and to the text \<open>Para one.\n\nPara two.\<close>
\<close>

theorem render_html_rule:
  "(fully_normalized b \<longrightarrow> html_part (render b) = render_html_spec b) \<and>
   render (js ''Para one.\<newline>\<newline>Para two.'') =
     \<lparr>html_part = js ''<p>Para one.</p><p>Para two.</p>'',
      text_part = js ''Para one.\<newline>\<newline>Para two.''\<rparr>"
proof
  show "fully_normalized b \<longrightarrow> html_part (render b) = render_html_spec b"
    by (simp add: render_def formatEmailBody_def email_body_of_normalized to_html_spec)
  show "render (js ''Para one.\<newline>\<newline>Para two.'') =
     \<lparr>html_part = js ''<p>Para one.</p><p>Para two.</p>'',
      text_part = js ''Para one.\<newline>\<newline>Para two.''\<rparr>"
    by code_simp
qed

theorem render_html_rule_witness:
  "fully_normalized (js ''Hi,\<newline>all.\<newline>\<newline>\<newline>Bye'') \<and>
   html_part (render (js ''Hi,\<newline>all.\<newline>\<newline>\<newline>Bye'')) =
     js ''<p>Hi,<br>all.</p><p><br>Bye</p>''"
proof -
  have h: "fully_normalized (js ''Hi,\<newline>all.\<newline>\<newline>\<newline>Bye'')"
    by code_simp
  have v: "render_html_spec (js ''Hi,\<newline>all.\<newline>\<newline>\<newline>Bye'') =
      js ''<p>Hi,<br>all.</p><p><br>Bye</p>''"
    by code_simp
  from render_html_rule[of "js ''Hi,\<newline>all.\<newline>\<newline>\<newline>Bye''"] h v
  show ?thesis by simp
qed

text \<open>
  Claim C9, as the code has it. Rendering the plain-text part of a rendering again gives
  the same plain-text part, exactly; and the whole rendering is the same when the body
  holds no tag and no \<open>&nbsp;\<close>.
\<close>

theorem rerender_text_idempotent:
  "text_part (render (text_part (render b))) = text_part (render b) \<and>
   (\<not> has_tag b \<and> \<not> includes_str b (js ''&nbsp;'') \<longrightarrow>
      render (text_part (render b)) = render b)"
  by (simp add: render_def stripHtml_idem stripHtml_id)

theorem rerender_text_idempotent_witness:
  "\<not> has_tag (js ''2 < 3\<newline>ok'') \<and> \<not> includes_str (js ''2 < 3\<newline>ok'') (js ''&nbsp;'') \<and>
   render (text_part (render (js ''2 < 3\<newline>ok''))) = render (js ''2 < 3\<newline>ok'')"
proof -
  have h: "\<not> has_tag (js ''2 < 3\<newline>ok'') \<and> \<not> includes_str (js ''2 < 3\<newline>ok'') (js ''&nbsp;'')"
    by code_simp
  with rerender_text_idempotent[of "js ''2 < 3\<newline>ok''"] show ?thesis by simp
qed

text \<open>
  Claim C9 as it is stated fails for a body with markup: the HTML part of the second
  rendering has lost the tags, and the two differ by more than white space.
\<close>

theorem rerender_html_counterexample:
  "drop_spaces (html_part (render (text_part (render (js ''<b>Hi</b>''))))) = js ''<p>Hi</p>'' \<and>
   drop_spaces (html_part (render (js ''<b>Hi</b>''))) = js ''<p><b>Hi</b></p>'' \<and>
   drop_spaces (html_part (render (text_part (render (js ''<b>Hi</b>''))))) \<noteq>
     drop_spaces (html_part (render (js ''<b>Hi</b>'')))"
  by code_simp

section \<open>Facts about validation, the sending loop and the normalizer\<close>

lemma includes_str_iff: "includes_str s p \<longleftrightarrow> (\<exists>u v. s = u @ p @ v)"
proof (induction s)
  case Nil
  show ?case by simp
next
  case (Cons c cs)
  show ?case
  proof
    assume "includes_str (c # cs) p"
    then consider "startsWith (c # cs) p" | "includes_str cs p" by auto
    then show "\<exists>u v. c # cs = u @ p @ v"
    proof cases
      case 1
      then have "c # cs = [] @ p @ drop (length p) (c # cs)"
        using startsWith_append by fastforce
      then show ?thesis by blast
    next
      case 2
      with Cons.IH obtain u v where "cs = u @ p @ v" by blast
      then have "c # cs = (c # u) @ p @ v" by simp
      then show ?thesis by blast
    qed
  next
    assume "\<exists>u v. c # cs = u @ p @ v"
    then obtain u v where e: "c # cs = u @ p @ v" by blast
    show "includes_str (c # cs) p"
    proof (cases u)
      case Nil
      with e have "startsWith (c # cs) p" by (simp add: startsWith_def)
      then show ?thesis by simp
    next
      case (Cons x u')
      with e have "cs = u' @ p @ v" by simp
      with Cons.IH show ?thesis by auto
    qed
  qed
qed

lemma join_holds_member: "e \<in> set es \<Longrightarrow> \<exists>u v. join sep es = u @ e @ v"
proof (induction sep es rule: join.induct)
  case (1 sep)
  then show ?case by simp
next
  case (2 sep l)
  then have "join sep [l] = [] @ e @ []" by simp
  then show ?case by blast
next
  case (3 sep l m ls)
  show ?case
  proof (cases "e = l")
    case True
    then have "join sep (l # m # ls) = [] @ e @ (sep @ join sep (m # ls))" by simp
    then show ?thesis by blast
  next
    case False
    with 3 obtain u v where "join sep (m # ls) = u @ e @ v" by auto
    then have "join sep (l # m # ls) = (l @ sep @ u) @ e @ v" by simp
    then show ?thesis by blast
  qed
qed

lemma validation_failed_names: "e \<in> set errors \<Longrightarrow> includes_str (validation_failed errors) e"
proof -
  assume "e \<in> set errors"
  then obtain u v where "join (js '', '') errors = u @ e @ v"
    using join_holds_member by blast
  then have "validation_failed errors = (js ''Email validation failed: '' @ u) @ e @ v"
    by (simp add: validation_failed_def)
  then show ?thesis unfolding includes_str_iff by blast
qed

lemma validate_from_valid:
  "fst (validate_from i es acc) = fst acc @ map trim (filter passes_validation es)"
  by (induction es arbitrary: i acc) (auto simp: validate_entry_def passes_validation_def Let_def)

lemma validate_from_errors_length:
  "length (snd (validate_from i es acc)) =
     length (snd acc) + length (filter (\<lambda>e. \<not> passes_validation e) es)"
  by (induction es arbitrary: i acc) (auto simp: validate_entry_def passes_validation_def Let_def)

lemma validate_from_errors_mono: "set (snd acc) \<subseteq> set (snd (validate_from i es acc))"
proof (induction es arbitrary: i acc)
  case Nil
  show ?case by simp
next
  case (Cons e es)
  have "set (snd acc) \<subseteq> set (snd (validate_entry i e acc))"
    by (auto simp: validate_entry_def Let_def)
  with Cons[of "validate_entry i e acc" "Suc i"] show ?case by auto
qed

lemma validate_from_blank:
  "j < length es \<Longrightarrow> trim (es ! j) = [] \<Longrightarrow>
     empty_entry_error (i + j) \<in> set (snd (validate_from i es acc))"
proof (induction es arbitrary: i j acc)
  case Nil
  then show ?case by simp
next
  case (Cons e es)
  show ?case
  proof (cases j)
    case 0
    with Cons.prems have "empty_entry_error i \<in> set (snd (validate_entry i e acc))"
      by (simp add: validate_entry_def)
    with validate_from_errors_mono[of "validate_entry i e acc" "Suc i" es] 0 show ?thesis
      by auto
  next
    case (Suc k)
    with Cons.prems Cons.IH[of k "Suc i" "validate_entry i e acc"] show ?thesis by simp
  qed
qed

lemma validate_from_invalid:
  "j < length es \<Longrightarrow> trim (es ! j) \<noteq> [] \<Longrightarrow> \<not> validateEmail (trim (es ! j)) \<Longrightarrow>
     invalid_format_error (trim (es ! j)) \<in> set (snd (validate_from i es acc))"
proof (induction es arbitrary: i j acc)
  case Nil
  then show ?case by simp
next
  case (Cons e es)
  show ?case
  proof (cases j)
    case 0
    with Cons.prems have "invalid_format_error (trim e) \<in> set (snd (validate_entry i e acc))"
      by (simp add: validate_entry_def)
    with validate_from_errors_mono[of "validate_entry i e acc" "Suc i" es] 0 show ?thesis
      by auto
  next
    case (Suc k)
    with Cons.prems Cons.IH[of k "Suc i" "validate_entry i e acc"] show ?thesis by simp
  qed
qed

lemma send_each_outcomes:
  "send_each t mk as (sent, fails, trace, s) = (sent', fails', trace', s') \<Longrightarrow>
     length sent' + length fails' = length sent + length fails + length as \<and>
     mset (map email sent') + mset (map failed_email fails') =
       mset (map email sent) + mset (map failed_email fails) + mset as \<and>
     trace' = trace @ map (\<lambda>a. SendMail (mk a)) as"
proof (induction as arbitrary: sent fails trace s)
  case Nil
  then show ?case by simp
next
  case (Cons a as)
  obtain r s1 where step: "sendMail t s (mk a) = (r, s1)" by (cases "sendMail t s (mk a)") auto
  show ?case
  proof (cases r)
    case (Inl err)
    with step Cons.prems have
      "send_each t mk as (sent, fails @ [\<lparr>failed_email = a, error = message err\<rparr>],
          trace @ [SendMail (mk a)], s1) = (sent', fails', trace', s')"
      by simp
    from Cons.IH[OF this] show ?thesis by simp
  next
    case (Inr mid)
    with step Cons.prems have
      "send_each t mk as (sent @ [\<lparr>email = a, status = js ''sent'', messageId = mid\<rparr>], fails,
          trace @ [SendMail (mk a)], s1) = (sent', fails', trace', s')"
      by simp
    from Cons.IH[OF this] show ?thesis by simp
  qed
qed

lemma includes_str_suffix: "includes_str (u @ e) e"
  unfolding includes_str_iff by (metis append_Nil2)

lemma includes_str_trans: "includes_str m x \<Longrightarrow> includes_str x e \<Longrightarrow> includes_str m e"
  unfolding includes_str_iff by (metis append.assoc)



lemma normalize_cases:
  "normalize raw =
     (case parse_response (clean_response raw) of
        Inr e \<Rightarrow> Inr e
      | Inl err \<Rightarrow> Inr (manual_extraction (clean_response raw)))"
  by (simp add: normalize_def Let_def)



lemma findIndex_Some:
  "findIndex p xs = Some i \<Longrightarrow> i < length xs \<and> p (xs ! i) \<and> (\<forall>j<i. \<not> p (xs ! j))"
proof (induction xs arbitrary: i)
  case Nil
  then show ?case by simp
next
  case (Cons x xs)
  show ?case
  proof (cases "p x")
    case True
    with Cons.prems show ?thesis by simp
  next
    case False
    with Cons.prems obtain k where k: "findIndex p xs = Some k" "i = Suc k" by auto
    from Cons.IH[OF k(1)] False k(2) show ?thesis
      by (auto simp: nth_Cons split: nat.splits)
  qed
qed









lemma sendEmail_configured_rejects:
  assumes "fst (validateEmailList recipients) = [] \<or> snd (validateEmailList recipients) \<noteq> []"
  shows "\<exists>msg. sendEmail (Some t) user recipients subj bdy senderName s0 = (Inl (Error msg), [], s0) \<and>
     (\<forall>i < length recipients. trim (recipients ! i) = [] \<longrightarrow>
        includes_str msg (empty_entry_error i)) \<and>
     (\<forall>i < length recipients.
        trim (recipients ! i) \<noteq> [] \<and> \<not> validateEmail (trim (recipients ! i)) \<longrightarrow>
        includes_str msg (invalid_format_error (trim (recipients ! i))) \<and>
        includes_str msg (trim (recipients ! i)))"
proof -
  define errors where "errors = snd (validateEmailList recipients)"
  have blank: "empty_entry_error i \<in> set errors"
    if "i < length recipients" "trim (recipients ! i) = []" for i
    using validate_from_blank[OF that, of 0 "([], [])"]
    by (simp add: errors_def validateEmailList_def)
  have invalid: "invalid_format_error (trim (recipients ! i)) \<in> set errors"
    if "i < length recipients" "trim (recipients ! i) \<noteq> []"
       "\<not> validateEmail (trim (recipients ! i))" for i
    using validate_from_invalid[OF that, of 0 "([], [])"]
    by (simp add: errors_def validateEmailList_def)
  show ?thesis
  proof (cases "errors = []")
    case True
    with assms have "fst (validateEmailList recipients) = []" by (simp add: errors_def)
    with True have "sendEmail (Some t) user recipients subj bdy senderName s0 =
        (Inl (Error (js ''No valid recipients found'')), [], s0)"
      by (simp add: sendEmail_def errors_def)
    moreover from True blank have "\<forall>i < length recipients. trim (recipients ! i) \<noteq> []"
      by fastforce
    moreover from True invalid have
      "\<forall>i < length recipients. \<not> (trim (recipients ! i) \<noteq> [] \<and> \<not> validateEmail (trim (recipients ! i)))"
      by fastforce
    ultimately show ?thesis by blast
  next
    case False
    then have "sendEmail (Some t) user recipients subj bdy senderName s0 =
        (Inl (Error (validation_failed errors)), [], s0)"
      by (simp add: sendEmail_def errors_def)
    moreover have "includes_str (validation_failed errors) (empty_entry_error i)"
      if "i < length recipients" "trim (recipients ! i) = []" for i
      using blank[OF that] by (rule validation_failed_names)
    moreover have "includes_str (validation_failed errors) (invalid_format_error (trim (recipients ! i)))"
      if "i < length recipients" "trim (recipients ! i) \<noteq> []"
         "\<not> validateEmail (trim (recipients ! i))" for i
      using invalid[OF that] by (rule validation_failed_names)
    moreover have "includes_str (invalid_format_error e) e" for e
      unfolding invalid_format_error_def by (rule includes_str_suffix)
    ultimately show ?thesis by (meson includes_str_trans)
  qed
qed

section \<open>The orchestrator's claims\<close>

text \<open>
  Claim C3, as the code has it. With two valid recipients, a transport that answers the
  connection check, refuses the first message and accepts the second, \<open>sendEmail\<close>
  returns a report with \<open>successful = 1\<close> and \<open>failed = 1\<close>; the entry of the
  second recipient is in \<open>results\<close>, the entry of the first is in \<open>failures\<close>,
  and the transport was called once to verify and once for each recipient.
\<close>

theorem sendEmail_partial_failure:
  assumes "validateEmailList [r1, r2] = ([a1, a2], [])"
    and "verify t s0 = (None, s1)"
    and "mk = mailOptions_for (case senderName of None \<Rightarrow> js ''Email Sender App'' | Some n \<Rightarrow> n) user subj bdy"
    and "sendMail t s1 (mk a1) = (Inl err, s2)"
    and "sendMail t s2 (mk a2) = (Inr mid, s3)"
  shows "sendEmail (Some t) user [r1, r2] subj bdy senderName s0 =
     (Inr \<lparr>success = True, totalRecipients = 2, successful = 1, failed = 1,
           results = [\<lparr>email = a2, status = js ''sent'', messageId = mid\<rparr>],
           failures = [\<lparr>failed_email = a1, error = message err\<rparr>]\<rparr>,
      [Verify, SendMail (mk a1), SendMail (mk a2)], s3)"
  using assms by (simp add: sendEmail_def)

theorem sendEmail_partial_failure_witness:
  "validateEmailList [js ''a@x.com'', js '' b@x.com ''] = ([js ''a@x.com'', js ''b@x.com''], []) \<and>
   fst (sendEmail (Some flaky_transport) (js ''me@x.com'') [js ''a@x.com'', js '' b@x.com '']
          (js ''Hello'') (js ''Dear all'') None 0) =
     Inr \<lparr>success = True, totalRecipients = 2, successful = 1, failed = 1,
          results = [\<lparr>email = js ''b@x.com'', status = js ''sent'', messageId = js ''<id-1@x.com>''\<rparr>],
          failures = [\<lparr>failed_email = js ''a@x.com'', error = js ''Mailbox unavailable''\<rparr>]\<rparr>"
proof -
  let ?mk = "mailOptions_for (case None of None \<Rightarrow> js ''Email Sender App'' | Some n \<Rightarrow> n)
      (js ''me@x.com'') (js ''Hello'') (js ''Dear all'')"
  have h1: "validateEmailList [js ''a@x.com'', js '' b@x.com ''] = ([js ''a@x.com'', js ''b@x.com''], [])"
    by code_simp
  have h2: "verify flaky_transport 0 = (None, 0)" by (simp add: flaky_transport_def)
  have h3: "sendMail flaky_transport 0 (?mk (js ''a@x.com'')) =
      (Inl \<lparr>code = Some (js ''EENVELOPE''), message = js ''Mailbox unavailable''\<rparr>, 1)"
    by (simp add: flaky_transport_def)
  have h4: "sendMail flaky_transport 1 (?mk (js ''b@x.com'')) = (Inr (js ''<id-1@x.com>''), 2)"
    by (simp add: flaky_transport_def js_def)
  from sendEmail_partial_failure[OF h1 h2 refl h3 h4] h1 show ?thesis by simp
qed

text \<open>
  Claim C3 as it is stated fails: \<open>results\<close> holds the delivered recipient only, the
  failed one has no entry there.
\<close>

theorem sendEmail_results_counterexample:
  "fst (sendEmail (Some flaky_transport) (js ''me@x.com'') [js ''a@x.com'', js ''b@x.com'']
          (js ''Hello'') (js ''Dear all'') None 0) =
     Inr \<lparr>success = True, totalRecipients = 2, successful = 1, failed = 1,
          results = [\<lparr>email = js ''b@x.com'', status = js ''sent'', messageId = js ''<id-1@x.com>''\<rparr>],
          failures = [\<lparr>failed_email = js ''a@x.com'', error = js ''Mailbox unavailable''\<rparr>]\<rparr> \<and>
   map email (results (projr (fst (sendEmail (Some flaky_transport) (js ''me@x.com'')
          [js ''a@x.com'', js ''b@x.com''] (js ''Hello'') (js ''Dear all'') None 0)))) = [js ''b@x.com'']"
  by code_simp

text \<open>
  Claim C4, as the code has it. When no recipient is valid or an entry is invalid,
  \<open>sendEmail\<close> throws before any call to the transport, whose state is unchanged,
  whether the service is configured or not. On a configured service the error is the
  validation error: its message holds the error of every blank entry (with its position)
  and of every entry that is not an address (with its trimmed text).
\<close>

theorem sendEmail_rejects_invalid_recipients:
  assumes "fst (validateEmailList recipients) = [] \<or> snd (validateEmailList recipients) \<noteq> []"
  shows "\<exists>msg. sendEmail tr user recipients subj bdy senderName s0 = (Inl (Error msg), [], s0) \<and>
     (tr \<noteq> None \<longrightarrow>
        (\<forall>i < length recipients. trim (recipients ! i) = [] \<longrightarrow>
           includes_str msg (empty_entry_error i)) \<and>
        (\<forall>i < length recipients.
           trim (recipients ! i) \<noteq> [] \<and> \<not> validateEmail (trim (recipients ! i)) \<longrightarrow>
           includes_str msg (invalid_format_error (trim (recipients ! i))) \<and>
           includes_str msg (trim (recipients ! i))))"
proof (cases tr)
  case None
  then show ?thesis by (simp add: sendEmail_def)
next
  case (Some t)
  from sendEmail_configured_rejects[OF assms, of t user subj bdy senderName s0] Some
  show ?thesis by auto
qed

theorem sendEmail_rejects_invalid_recipients_witness:
  "snd (validateEmailList [js ''good@x.com'', js ''not-an-email'', js ''  '', js ''a@b'']) \<noteq> [] \<and>
   (\<exists>msg. sendEmail (Some flaky_transport) (js ''me@x.com'')
             [js ''good@x.com'', js ''not-an-email'', js ''  '', js ''a@b'']
             (js ''Hello'') (js ''Dear all'') None 0 = (Inl (Error msg), [], 0) \<and>
          includes_str msg (js ''not-an-email'') \<and>
          includes_str msg (js ''Email at position 3 is empty'') \<and>
          includes_str msg (js ''a@b''))"
proof -
  let ?rs = "[js ''good@x.com'', js ''not-an-email'', js ''  '', js ''a@b'']"
  have h: "snd (validateEmailList ?rs) \<noteq> []" by code_simp
  have e1: "trim (js ''not-an-email'') = js ''not-an-email''"
    "js ''not-an-email'' \<noteq> [] \<and> \<not> validateEmail (js ''not-an-email'')"
    by code_simp+
  have e2: "trim (js ''  '') = []" "empty_entry_error 2 = js ''Email at position 3 is empty''"
    by code_simp+
  have e3: "trim (js ''a@b'') = js ''a@b''" "js ''a@b'' \<noteq> [] \<and> \<not> validateEmail (js ''a@b'')"
    by code_simp+
  have c: "Some flaky_transport \<noteq> None" by simp
  from sendEmail_rejects_invalid_recipients[where recipients = ?rs and tr = "Some flaky_transport"
      and user = "js ''me@x.com''" and subj = "js ''Hello''" and bdy = "js ''Dear all''"
      and senderName = None and ?s0.0 = 0] h c
  obtain msg where m: "sendEmail (Some flaky_transport) (js ''me@x.com'') ?rs
             (js ''Hello'') (js ''Dear all'') None 0 = (Inl (Error msg), [], 0)"
    and b: "\<forall>i < length ?rs. trim (?rs ! i) = [] \<longrightarrow> includes_str msg (empty_entry_error i)"
    and i: "\<forall>i < length ?rs. trim (?rs ! i) \<noteq> [] \<and> \<not> validateEmail (trim (?rs ! i)) \<longrightarrow>
        includes_str msg (invalid_format_error (trim (?rs ! i))) \<and>
        includes_str msg (trim (?rs ! i))"
    by blast
  have "includes_str msg (js ''not-an-email'')"
    using i[rule_format, of 1] by (simp add: e1)
  moreover have "includes_str msg (js ''Email at position 3 is empty'')"
    using b[rule_format, of 2] by (simp add: e2)
  moreover have "includes_str msg (js ''a@b'')"
    using i[rule_format, of 3] by (simp add: e3)
  ultimately show ?thesis using h m by blast
qed

text \<open>
  Claim C4 as it is stated fails on a service without configuration: the call with an
  invalid recipient throws the configuration error, which names no entry.
\<close>

theorem sendEmail_unconfigured_counterexample:
  "snd (validateEmailList [js ''good@x.com'', js ''not-an-email'']) \<noteq> [] \<and>
   sendEmail (None :: nat transporter option) (js ''me@x.com'')
       [js ''good@x.com'', js ''not-an-email''] (js ''Hello'') (js ''Dear all'') None 0 =
     (Inl (Error (js ''Email service is not configured. Please check your environment variables.'')),
      [], 0) \<and>
   \<not> includes_str (js ''Email service is not configured. Please check your environment variables.'')
       (js ''not-an-email'')"
  by code_simp

text \<open>
  Claim C10. A report that \<open>sendEmail\<close> returns has
  \<open>totalRecipients = successful + failed\<close>; \<open>successful\<close> and \<open>failed\<close> count
  the entries of \<open>results\<close> and of \<open>failures\<close>; \<open>totalRecipients\<close> is the
  number of recipients that passed validation (all of them, since the call returned);
  and every validated recipient has exactly one entry, in \<open>results\<close> or in
  \<open>failures\<close>.
\<close>

theorem sendEmail_report_counts:
  assumes "sendEmail tr user recipients subj bdy senderName s0 = (Inr rep, trace, s')"
  shows "totalRecipients rep = successful rep + failed rep \<and>
     successful rep = length (results rep) \<and>
     failed rep = length (failures rep) \<and>
     totalRecipients rep = length (filter passes_validation recipients) \<and>
     totalRecipients rep = length recipients \<and>
     mset (map email (results rep)) + mset (map failed_email (failures rep)) =
       mset (map trim recipients)"
proof -
  obtain t where tr: "tr = Some t" using assms by (cases tr) (auto simp: sendEmail_def)
  define valid where "valid = fst (validateEmailList recipients)"
  define errors where "errors = snd (validateEmailList recipients)"
  define mk where "mk = mailOptions_for (case senderName of None \<Rightarrow> js ''Email Sender App'' | Some n \<Rightarrow> n) user subj bdy"
  have noerr: "errors = []" and nonempty: "valid \<noteq> []"
    using assms tr by (auto simp: sendEmail_def errors_def valid_def Let_def split: if_splits)
  obtain v s1 where ver: "verify t s0 = (v, s1)" by (cases "verify t s0") auto
  have v: "v = None"
    using assms tr noerr nonempty ver
    by (cases v) (auto simp: sendEmail_def errors_def valid_def Let_def)
  obtain sent fails trace' s2 where
    loop: "send_each t mk valid ([], [], [Verify], s1) = (sent, fails, trace', s2)"
    by (cases "send_each t mk valid ([], [], [Verify], s1)") auto
  have rep: "rep = \<lparr>success = True, totalRecipients = length valid, successful = length sent,
      failed = length fails, results = sent, failures = fails\<rparr>"
    using assms tr noerr nonempty ver v loop
    by (simp add: sendEmail_def errors_def valid_def mk_def Let_def)
  from send_each_outcomes[OF loop] have
    cnt: "length sent + length fails = length valid" and
    ms: "mset (map email sent) + mset (map failed_email fails) = mset valid"
    by simp_all
  have valid_eq: "valid = map trim (filter passes_validation recipients)"
    by (simp add: valid_def validateEmailList_def validate_from_valid)
  have "length (filter (\<lambda>e. \<not> passes_validation e) recipients) = 0"
    using noerr validate_from_errors_length[of 0 recipients "([], [])"]
    by (simp add: errors_def validateEmailList_def)
  then have all_pass: "filter passes_validation recipients = recipients"
    by (metis (mono_tags, lifting) filter_True filter_empty_conv length_0_conv)
  show ?thesis using rep cnt ms valid_eq all_pass by simp
qed

theorem sendEmail_report_counts_witness:
  "fst (sendEmail (Some flaky_transport) (js ''me@x.com'') [js ''a@x.com'', js '' b@x.com '', js ''c@x.com'']
          (js ''Hello'') (js ''Dear all'') (Some (js ''Ann'')) 0) =
     Inr \<lparr>success = True, totalRecipients = 3, successful = 2, failed = 1,
          results = [\<lparr>email = js ''b@x.com'', status = js ''sent'', messageId = js ''<id-1@x.com>''\<rparr>,
                     \<lparr>email = js ''c@x.com'', status = js ''sent'', messageId = js ''<id-2@x.com>''\<rparr>],
          failures = [\<lparr>failed_email = js ''a@x.com'', error = js ''Mailbox unavailable''\<rparr>]\<rparr> \<and>
   (3::nat) = 2 + 1 \<and>
   mset [js ''b@x.com'', js ''c@x.com''] + mset [js ''a@x.com''] =
     mset (map trim [js ''a@x.com'', js '' b@x.com '', js ''c@x.com''])"
proof -
  let ?call = "sendEmail (Some flaky_transport) (js ''me@x.com'') [js ''a@x.com'', js '' b@x.com '', js ''c@x.com'']
          (js ''Hello'') (js ''Dear all'') (Some (js ''Ann'')) 0"
  let ?rep = "\<lparr>success = True, totalRecipients = 3, successful = 2, failed = 1,
          results = [\<lparr>email = js ''b@x.com'', status = js ''sent'', messageId = js ''<id-1@x.com>''\<rparr>,
                     \<lparr>email = js ''c@x.com'', status = js ''sent'', messageId = js ''<id-2@x.com>''\<rparr>],
          failures = [\<lparr>failed_email = js ''a@x.com'', error = js ''Mailbox unavailable''\<rparr>]\<rparr>"
  have h: "fst ?call = Inr ?rep" by code_simp
  then have "?call = (Inr ?rep, fst (snd ?call), snd (snd ?call))"
    by (metis prod.collapse)
  from sendEmail_report_counts[OF this] h show ?thesis by simp
qed

section \<open>The normalizer's claims\<close>







text \<open>
  Claim C7, as the code has it. When the parse step throws on the cleaned response, no
  quoted \<open>"body"\<close> value is found and a non-blank line holds \<open>subject:\<close>, the
  subject is the first such line without its first \<open>subject\<close> token (with the colon
  and the white space after it), trimmed; the body is the other non-blank lines joined,
  trimmed, without a quote character at either end and without braces. The text
  \<open>Subject: Hello\<close> followed by two lines gives the subject \<open>Hello\<close> and the two
  lines as the body.
\<close>

theorem plain_text_fallback_result:
  "(parse_response (clean_response raw) = Inl err \<and>
    nonempty_match (js ''body'') (clean_response raw) = None \<and>
    findIndex is_subject_line (nonblank_lines (clean_response raw)) = Some i \<longrightarrow>
      i < length (nonblank_lines (clean_response raw)) \<and>
      is_subject_line (nonblank_lines (clean_response raw) ! i) \<and>
      (\<forall>j<i. \<not> is_subject_line (nonblank_lines (clean_response raw) ! j)) \<and>
      normalize raw =
        Inr \<lparr>subject = trim (remove_subject_token (nonblank_lines (clean_response raw) ! i)),
             body = remove_braces (strip_quotes (trim (join [LF]
                      (take i (nonblank_lines (clean_response raw)) @
                       drop (Suc i) (nonblank_lines (clean_response raw))))))\<rparr>) \<and>
   normalize (js ''Subject: Hello\<newline>Line A\<newline>Line B'') =
     Inr \<lparr>subject = js ''Hello'', body = js ''Line A\<newline>Line B''\<rparr>"
proof
  show "parse_response (clean_response raw) = Inl err \<and>
    nonempty_match (js ''body'') (clean_response raw) = None \<and>
    findIndex is_subject_line (nonblank_lines (clean_response raw)) = Some i \<longrightarrow>
      i < length (nonblank_lines (clean_response raw)) \<and>
      is_subject_line (nonblank_lines (clean_response raw) ! i) \<and>
      (\<forall>j<i. \<not> is_subject_line (nonblank_lines (clean_response raw) ! j)) \<and>
      normalize raw =
        Inr \<lparr>subject = trim (remove_subject_token (nonblank_lines (clean_response raw) ! i)),
             body = remove_braces (strip_quotes (trim (join [LF]
                      (take i (nonblank_lines (clean_response raw)) @
                       drop (Suc i) (nonblank_lines (clean_response raw))))))\<rparr>"
  proof (intro impI, elim conjE)
    assume p: "parse_response (clean_response raw) = Inl err"
      and b: "nonempty_match (js ''body'') (clean_response raw) = None"
      and f: "findIndex is_subject_line (nonblank_lines (clean_response raw)) = Some i"
    from p b f have "normalize raw =
        Inr \<lparr>subject = trim (remove_subject_token (nonblank_lines (clean_response raw) ! i)),
             body = remove_braces (strip_quotes (trim (join [LF]
                      (take i (nonblank_lines (clean_response raw)) @
                       drop (Suc i) (nonblank_lines (clean_response raw))))))\<rparr>"
      by (simp add: normalize_cases manual_extraction_def plain_text_fallback_def Let_def splice1_def)
    with findIndex_Some[OF f] show "i < length (nonblank_lines (clean_response raw)) \<and>
      is_subject_line (nonblank_lines (clean_response raw) ! i) \<and>
      (\<forall>j<i. \<not> is_subject_line (nonblank_lines (clean_response raw) ! j)) \<and>
      normalize raw =
        Inr \<lparr>subject = trim (remove_subject_token (nonblank_lines (clean_response raw) ! i)),
             body = remove_braces (strip_quotes (trim (join [LF]
                      (take i (nonblank_lines (clean_response raw)) @
                       drop (Suc i) (nonblank_lines (clean_response raw))))))\<rparr>"
      by blast
  qed
  show "normalize (js ''Subject: Hello\<newline>Line A\<newline>Line B'') =
     Inr \<lparr>subject = js ''Hello'', body = js ''Line A\<newline>Line B''\<rparr>"
    by code_simp
qed

theorem plain_text_fallback_result_witness:
  "parse_response (clean_response (js ''Hi,\<newline>Re subject: Plan \<newline>\<newline> See you soon\"'')) = Inl SyntaxError \<and>
   nonempty_match (js ''body'') (clean_response (js ''Hi,\<newline>Re subject: Plan \<newline>\<newline> See you soon\"'')) = None \<and>
   findIndex is_subject_line (nonblank_lines (clean_response (js ''Hi,\<newline>Re subject: Plan \<newline>\<newline> See you soon\"''))) = Some 1 \<and>
   normalize (js ''Hi,\<newline>Re subject: Plan \<newline>\<newline> See you soon\"'') =
     Inr \<lparr>subject = js ''Re Plan'', body = js ''Hi,\<newline> See you soon''\<rparr>"
proof -
  let ?raw = "js ''Hi,\<newline>Re subject: Plan \<newline>\<newline> See you soon\"''"
  have h: "parse_response (clean_response ?raw) = Inl SyntaxError \<and>
      nonempty_match (js ''body'') (clean_response ?raw) = None \<and>
      findIndex is_subject_line (nonblank_lines (clean_response ?raw)) = Some 1"
    by code_simp
  have v: "\<lparr>subject = trim (remove_subject_token (nonblank_lines (clean_response ?raw) ! 1)),
             body = remove_braces (strip_quotes (trim (join [LF]
                      (take 1 (nonblank_lines (clean_response ?raw)) @
                       drop (Suc 1) (nonblank_lines (clean_response ?raw))))))\<rparr> =
      \<lparr>subject = js ''Re Plan'', body = js ''Hi,\<newline> See you soon''\<rparr>"
    by code_simp
  from plain_text_fallback_result[of ?raw SyntaxError 1] h
  have "normalize ?raw =
      Inr \<lparr>subject = trim (remove_subject_token (nonblank_lines (clean_response ?raw) ! 1)),
             body = remove_braces (strip_quotes (trim (join [LF]
                      (take 1 (nonblank_lines (clean_response ?raw)) @
                       drop (Suc 1) (nonblank_lines (clean_response ?raw))))))\<rparr>"
    by blast
  with v h show ?thesis by simp
qed

text \<open>
  Claim C7 as it is stated fails: a brace in the body lines makes the brace bounding drop
  the subject line, and a \<open>subject\<close> without a colon earlier in the line is the
  token that is removed.
\<close>

theorem subject_line_counterexample:
  "is_subject_line (js ''Subject: Hello'') \<and>
   split_lines (js ''Subject: Hello\<newline>Dear {name},\<newline>Bye'') =
     [js ''Subject: Hello'', js ''Dear {name},'', js ''Bye''] \<and>
   match_key (js ''body'') (js ''Subject: Hello\<newline>Dear {name},\<newline>Bye'') = None \<and>
   normalize (js ''Subject: Hello\<newline>Dear {name},\<newline>Bye'') =
     Inr \<lparr>subject = js ''Generated Email'', body = js ''name''\<rparr> \<and>
   is_subject_line (js ''My subject is Subject: Hello'') \<and>
   normalize (js ''My subject is Subject: Hello\<newline>Bye'') =
     Inr \<lparr>subject = js ''My is Subject: Hello'', body = js ''Bye''\<rparr>"
  by code_simp




end
